theory Spec2Isabelle
  imports
    Main
    "HOL-Library.Char_ord"
    "HOL-Library.List_Lexorder"
    "HOL-Library.AList"
    "HOL-Library.Multiset"
begin

section \<open>The corpus indexer of knowledge-miner (app/indexer.py)\<close>

text \<open>
  The indexer walks a directory tree, fingerprints every eligible file and reconciles the
  \<^verbatim>\<open>files\<close> table with what it saw. The embedding follows \<^verbatim>\<open>app/indexer.py\<close> function by
  function. Three things come from outside the repository and are parameters of the model:
  \<^item> \<open>fnmatch\<close>, Python's \<^verbatim>\<open>fnmatch.fnmatch(name, pattern)\<close>;
  \<^item> \<open>sha256\<close>, the hex digest that \<^verbatim>\<open>hashlib.sha256\<close> gives for the bytes of a file;
  \<^item> \<open>now\<close>, the clock: \<open>now k\<close> is what the \<open>k\<close>-th call of
    \<^verbatim>\<open>datetime.now(timezone.utc)\<close> of a run returns.

  Strings are byte strings (UTF-8): their order by bytes is Python's order by code points.
  Paths are POSIX paths. The directory tree is a snapshot: it does not change while a run
  reads it.
\<close>

subsection \<open>Strings and paths (str and pathlib.PurePosixPath)\<close>

type_synonym path = "string list"

type_synonym datetime = int

text \<open>\<^verbatim>\<open>sep.join(xs)\<close>\<close>

fun str_join :: "string \<Rightarrow> string list \<Rightarrow> string" where
  "str_join s [] = []"
| "str_join s [x] = x"
| "str_join s (x # y # ys) = x @ s @ str_join s (y # ys)"

text \<open>\<^verbatim>\<open>s.split(c)\<close> for a separator of one character: never the empty list.\<close>

fun str_split :: "char \<Rightarrow> string \<Rightarrow> string list" where
  "str_split c [] = [[]]"
| "str_split c (x # xs) =
     (if x = c then [] # str_split c xs
      else (case str_split c xs of
              [] \<Rightarrow> [[x]]
            | y # ys \<Rightarrow> (x # y) # ys))"

text \<open>\<^verbatim>\<open>s.rfind(c)\<close>: the highest index of \<open>c\<close> in \<open>s\<close>, or \<open>-1\<close>.\<close>

fun rfind :: "char \<Rightarrow> string \<Rightarrow> int" where
  "rfind c [] = - 1"
| "rfind c (x # xs) =
     (let r = rfind c xs
      in if 0 \<le> r then r + 1 else if x = c then 0 else - 1)"

text \<open>\<^verbatim>\<open>s.lower()\<close>, on the ASCII letters; every other byte is kept.\<close>

definition lower_char :: "char \<Rightarrow> char" where
  "lower_char c =
     (case map_of (zip ''ABCDEFGHIJKLMNOPQRSTUVWXYZ'' ''abcdefghijklmnopqrstuvwxyz'') c of
        None \<Rightarrow> c
      | Some l \<Rightarrow> l)"

definition lower :: "string \<Rightarrow> string" where
  "lower s = map lower_char s"

text \<open>\<^verbatim>\<open>s.startswith(p)\<close>\<close>

definition startswith :: "string \<Rightarrow> string \<Rightarrow> bool" where
  "startswith s p = (take (length p) s = p)"

text \<open>
  \<^verbatim>\<open>posixpath.splitroot\<close>: the root (\<^verbatim>\<open>''\<close>, \<^verbatim>\<open>'/'\<close> or \<^verbatim>\<open>'//'\<close>) and the rest of a path string.
\<close>

definition splitroot :: "string \<Rightarrow> string \<times> string" where
  "splitroot p =
     (if take 1 p \<noteq> ''/'' then ([], p)
      else if take 1 (drop 1 p) \<noteq> ''/'' \<or> take 1 (drop 2 p) = ''/'' then (''/'', drop 1 p)
      else (take 2 p, drop 2 p))"

text \<open>
  \<^verbatim>\<open>Path(s).parts\<close>: the root, when there is one, then the components between the
  separators; empty components and \<^verbatim>\<open>'.'\<close> are dropped.
\<close>

definition path_parts :: "string \<Rightarrow> path" where
  "path_parts s =
     (case splitroot s of
        (root, rel) \<Rightarrow>
          (let tail = filter (\<lambda>x. x \<noteq> [] \<and> x \<noteq> ''.'') (str_split (CHR ''/'') rel)
           in if root \<noteq> [] then root # tail else tail))"

text \<open>\<^verbatim>\<open>str(p)\<close> of a relative path with the components \<open>ps\<close>.\<close>

definition path_str :: "path \<Rightarrow> string" where
  "path_str ps = (if ps = [] then ''.'' else str_join ''/'' ps)"

text \<open>\<^verbatim>\<open>p.name\<close>: the last component, \<^verbatim>\<open>''\<close> when there is none.\<close>

definition path_name :: "path \<Rightarrow> string" where
  "path_name ps = (if ps = [] then [] else last ps)"

text \<open>\<^verbatim>\<open>p.suffix\<close>: from the last dot of the name on, when that dot is neither first nor last.\<close>

definition path_suffix :: "path \<Rightarrow> string" where
  "path_suffix ps =
     (let name = path_name ps; i = rfind (CHR ''.'') name
      in if 0 < i \<and> i < int (length name) - 1 then drop (nat i) name else [])"

subsection \<open>Constants\<close>

definition DEFAULT_SKIP_PATTERNS :: "string list" where
  "DEFAULT_SKIP_PATTERNS = [''~$*'', ''*.tmp'', ''Thumbs.db'', ''.DS_Store'']"

definition DEFAULT_SUPPORTED_EXTENSIONS :: "string list" where
  "DEFAULT_SUPPORTED_EXTENSIONS =
     [''.md'', ''.docx'', ''.xlsx'', ''.pdf'', ''.vsdx'', ''.txt'', ''.csv'']"

subsection \<open>The directory tree\<close>

text \<open>
  One entry of \<^verbatim>\<open>root.rglob("*")\<close>: its components below the root, whether it is a directory,
  its \<^verbatim>\<open>stat()\<close>, and its bytes (\<open>None\<close> when opening or reading it raises \<^verbatim>\<open>OSError\<close>, of
  which \<^verbatim>\<open>PermissionError\<close> is a subclass). The times of \<^verbatim>\<open>stat()\<close> are taken as the
  \<^verbatim>\<open>datetime\<close> that \<^verbatim>\<open>datetime.fromtimestamp\<close> makes of them.
\<close>

record fs_entry =
  parts :: path
  is_dir :: bool
  st_size :: nat
  st_ctime :: datetime
  st_mtime :: datetime
  content :: "string option"

text \<open>
  The corpus root: \<open>None\<close> when \<^verbatim>\<open>root.is_dir()\<close> is false, else the entries below it in the
  order in which the operating system enumerates them.
\<close>

type_synonym filesystem = "fs_entry list option"

datatype error = OSError

text \<open>
  \<^verbatim>\<open>compute_file_hash\<close>: opens the file at the path and hashes its bytes, read in chunks of
  8192. Opening a missing file, a directory or an unreadable file raises \<^verbatim>\<open>OSError\<close>.
\<close>

definition compute_file_hash :: "(string \<Rightarrow> string) \<Rightarrow> filesystem \<Rightarrow> path \<Rightarrow> error + string" where
  "compute_file_hash sha256 fs file_path =
     (case fs of
        None \<Rightarrow> Inl OSError
      | Some entries \<Rightarrow>
          (case find (\<lambda>e. parts e = file_path) entries of
             None \<Rightarrow> Inl OSError
           | Some f \<Rightarrow>
               if is_dir f then Inl OSError
               else (case content f of
                       None \<Rightarrow> Inl OSError
                     | Some bytes \<Rightarrow> Inr (sha256 bytes))))"

subsection \<open>Path classification\<close>

text \<open>\<^verbatim>\<open>_should_skip\<close>\<close>

fun should_skip :: "(string \<Rightarrow> string \<Rightarrow> bool) \<Rightarrow> string \<Rightarrow> string list \<Rightarrow> bool" where
  "should_skip fnmatch name [] = False"
| "should_skip fnmatch name (pattern # patterns) =
     (if fnmatch name pattern then True else should_skip fnmatch name patterns)"

text \<open>\<^verbatim>\<open>determine_corpus_section\<close>\<close>

definition determine_corpus_section :: "string \<Rightarrow> string option" where
  "determine_corpus_section relative_path =
     (let parts = path_parts relative_path
      in if length parts \<le> 1 then None else Some (hd parts))"

subsection \<open>The walker\<close>

text \<open>The dictionary that \<^verbatim>\<open>walk_corpus\<close> yields for a file.\<close>

record meta =
  file_path :: string
  file_name :: string
  file_extension :: string
  file_size_bytes :: nat
  parent_dir :: string
  corpus_section :: "string option"
  created_at :: datetime
  modified_at :: datetime
  absolute_path :: path

definition make_meta :: "fs_entry \<Rightarrow> meta" where
  "make_meta item =
     (let relative_path = path_str (parts item)
      in \<lparr> file_path = relative_path,
           file_name = path_name (parts item),
           file_extension = lower (path_suffix (parts item)),
           file_size_bytes = st_size item,
           parent_dir = (if butlast (parts item) \<noteq> [] then path_str (butlast (parts item)) else []),
           corpus_section = determine_corpus_section relative_path,
           created_at = st_ctime item,
           modified_at = st_mtime item,
           absolute_path = parts item \<rparr>)"

text \<open>The body of the loop of \<^verbatim>\<open>walk_corpus\<close>, each \<^verbatim>\<open>continue\<close> a branch.\<close>

fun walk_items ::
  "(string \<Rightarrow> string \<Rightarrow> bool) \<Rightarrow> string list \<Rightarrow> string list \<Rightarrow> fs_entry list \<Rightarrow> meta list" where
  "walk_items fnmatch skip_patterns supported_extensions [] = []"
| "walk_items fnmatch skip_patterns supported_extensions (item # items) =
     (if is_dir item then walk_items fnmatch skip_patterns supported_extensions items
      else if list_ex (\<lambda>part. startswith part ''.'') (parts item)
        then walk_items fnmatch skip_patterns supported_extensions items
      else if should_skip fnmatch (path_name (parts item)) skip_patterns
        then walk_items fnmatch skip_patterns supported_extensions items
      else if lower (path_suffix (parts item)) \<notin> set supported_extensions
        then walk_items fnmatch skip_patterns supported_extensions items
      else make_meta item # walk_items fnmatch skip_patterns supported_extensions items)"

text \<open>
  \<^verbatim>\<open>walk_corpus\<close>. \<^verbatim>\<open>sorted\<close> orders \<^verbatim>\<open>Path\<close> objects by their components, each compared as
  a string; it is stable, as \<open>sort_key\<close> is.
\<close>

definition walk_corpus ::
  "(string \<Rightarrow> string \<Rightarrow> bool) \<Rightarrow> filesystem \<Rightarrow> string list option \<Rightarrow> string list option \<Rightarrow> meta list" where
  "walk_corpus fnmatch root skip_patterns supported_extensions =
     (let skip = (case skip_patterns of None \<Rightarrow> DEFAULT_SKIP_PATTERNS | Some ps \<Rightarrow> ps);
          exts = (case supported_extensions of None \<Rightarrow> DEFAULT_SUPPORTED_EXTENSIONS | Some es \<Rightarrow> es)
      in case root of
           None \<Rightarrow> []
         | Some entries \<Rightarrow> walk_items fnmatch skip exts (sort_key parts entries))"

subsection \<open>The catalog (app/models.py)\<close>

text \<open>
  A row of the table \<^verbatim>\<open>files\<close>, without its key. The column \<^verbatim>\<open>file_path\<close> is unique, so the
  table is a list of rows, each with its \<^verbatim>\<open>file_path\<close> first, in the order of insertion. The
  columns \<^verbatim>\<open>id\<close> and \<^verbatim>\<open>tags\<close>, which the database fills and the indexer never reads or
  writes, are left out.
\<close>

record File =
  file_name :: string
  file_extension :: string
  file_size_bytes :: nat
  parent_dir :: string
  corpus_section :: "string option"
  created_at :: "datetime option"
  modified_at :: "datetime option"
  indexed_at :: datetime
  content_text :: "string option"
  file_hash :: "string option"

type_synonym catalog = "(string \<times> File) list"

text \<open>\<^verbatim>\<open>db_session.query(File).filter_by(file_path=rel_path).first()\<close>\<close>

definition query_first :: "catalog \<Rightarrow> string \<Rightarrow> File option" where
  "query_first db rel_path = map_of db rel_path"

text \<open>\<^verbatim>\<open>db_session.add(new_file)\<close>\<close>

definition add_row :: "catalog \<Rightarrow> string \<Rightarrow> File \<Rightarrow> catalog" where
  "add_row db rel_path new_file = db @ [(rel_path, new_file)]"

text \<open>The assignments to the columns of \<^verbatim>\<open>existing\<close>: the first row of that path, in place.\<close>

fun set_row :: "catalog \<Rightarrow> string \<Rightarrow> File \<Rightarrow> catalog" where
  "set_row [] rel_path row = []"
| "set_row ((p, r) # db) rel_path row =
     (if p = rel_path then (p, row) # db else (p, r) # set_row db rel_path row)"

text \<open>\<^verbatim>\<open>db_session.delete(record)\<close>\<close>

definition delete_row :: "catalog \<Rightarrow> string \<Rightarrow> catalog" where
  "delete_row db rel_path = filter (\<lambda>(p, r). p \<noteq> rel_path) db"

subsection \<open>Run statistics\<close>

text \<open>The dictionary \<^verbatim>\<open>stats\<close>, and \<^verbatim>\<open>stats[key] += 1\<close> on a key that it holds.\<close>

type_synonym stats = "string \<rightharpoonup> nat"

definition incr :: "string \<Rightarrow> stats \<Rightarrow> stats" where
  "incr key stats = (case stats key of None \<Rightarrow> stats | Some n \<Rightarrow> stats(key \<mapsto> n + 1))"

subsection \<open>The reconciler\<close>

text \<open>
  The assignments of lines 170 to 178 (and 248 to 256): every column of \<^verbatim>\<open>existing\<close> but
  \<^verbatim>\<open>content_text\<close> is overwritten.
\<close>

definition update_existing :: "File \<Rightarrow> meta \<Rightarrow> string \<Rightarrow> datetime \<Rightarrow> File" where
  "update_existing existing m digest t =
     existing
       \<lparr> File.file_name := meta.file_name m,
         File.file_extension := meta.file_extension m,
         File.file_size_bytes := meta.file_size_bytes m,
         File.parent_dir := meta.parent_dir m,
         File.corpus_section := meta.corpus_section m,
         File.created_at := Some (meta.created_at m),
         File.modified_at := Some (meta.modified_at m),
         File.indexed_at := t,
         File.file_hash := Some digest \<rparr>"

text \<open>The row \<^verbatim>\<open>File(...)\<close> of lines 182 to 193 (and 259 to 270).\<close>

definition new_file :: "meta \<Rightarrow> string \<Rightarrow> datetime \<Rightarrow> File" where
  "new_file m digest t =
     \<lparr> File.file_name = meta.file_name m,
       File.file_extension = meta.file_extension m,
       File.file_size_bytes = meta.file_size_bytes m,
       File.parent_dir = meta.parent_dir m,
       File.corpus_section = meta.corpus_section m,
       File.created_at = Some (meta.created_at m),
       File.modified_at = Some (meta.modified_at m),
       File.indexed_at = t,
       File.content_text = None,
       File.file_hash = Some digest \<rparr>"

text \<open>
  What \<^verbatim>\<open>index_corpus\<close> (lines 152 to 195, the set of seen paths apart) and
  \<^verbatim>\<open>reindex_changed\<close> (lines 232 to 272) do with one record of the walker: the two loop
  bodies are the same text. The state is the table, the statistics and the number of clock
  readings taken so far.
\<close>

definition process_record ::
  "(string \<Rightarrow> string) \<Rightarrow> (nat \<Rightarrow> datetime) \<Rightarrow> filesystem \<Rightarrow> meta \<Rightarrow>
     catalog \<times> stats \<times> nat \<Rightarrow> catalog \<times> stats \<times> nat" where
  "process_record sha256 now fs m s =
     (case s of
        (db, stats0, ticks) \<Rightarrow>
          (let stats = incr ''total'' stats0;
               rel_path = meta.file_path m
           in case compute_file_hash sha256 fs (absolute_path m) of
                Inl e \<Rightarrow> (db, stats, ticks)
              | Inr digest \<Rightarrow>
                  (case query_first db rel_path of
                     Some existing \<Rightarrow>
                       if File.file_hash existing = Some digest
                       then (db, incr ''unchanged'' stats, ticks)
                       else (set_row db rel_path (update_existing existing m digest (now ticks)),
                             incr ''updated'' stats, Suc ticks)
                   | None \<Rightarrow>
                       (add_row db rel_path (new_file m digest (now ticks)),
                        incr ''new'' stats, Suc ticks))))"

text \<open>The first loop of \<^verbatim>\<open>index_corpus\<close>, which also collects \<^verbatim>\<open>seen_paths\<close>.\<close>

fun index_loop ::
  "(string \<Rightarrow> string) \<Rightarrow> (nat \<Rightarrow> datetime) \<Rightarrow> filesystem \<Rightarrow> meta list \<Rightarrow>
     (catalog \<times> stats \<times> nat) \<times> string set \<Rightarrow> (catalog \<times> stats \<times> nat) \<times> string set" where
  "index_loop sha256 now fs [] s = s"
| "index_loop sha256 now fs (m # ms) s =
     (case s of
        (st, seen_paths) \<Rightarrow>
          index_loop sha256 now fs ms
            (process_record sha256 now fs m st, insert (meta.file_path m) seen_paths))"

text \<open>The second loop of \<^verbatim>\<open>index_corpus\<close>, over \<^verbatim>\<open>db_session.query(File).all()\<close>.\<close>

fun delete_unseen :: "string set \<Rightarrow> catalog \<Rightarrow> catalog \<times> stats \<Rightarrow> catalog \<times> stats" where
  "delete_unseen seen_paths [] s = s"
| "delete_unseen seen_paths (record # all_indexed) s =
     (case s of
        (db, stats) \<Rightarrow>
          if fst record \<notin> seen_paths
          then delete_unseen seen_paths all_indexed (delete_row db (fst record), incr ''deleted'' stats)
          else delete_unseen seen_paths all_indexed (db, stats))"

text \<open>\<^verbatim>\<open>index_corpus\<close>: the table after the commit, and the statistics returned.\<close>

definition index_corpus ::
  "(string \<Rightarrow> string \<Rightarrow> bool) \<Rightarrow> (string \<Rightarrow> string) \<Rightarrow> (nat \<Rightarrow> datetime) \<Rightarrow> filesystem \<Rightarrow>
     catalog \<Rightarrow> string list option \<Rightarrow> string list option \<Rightarrow> catalog \<times> stats" where
  "index_corpus fnmatch sha256 now root db_session skip_patterns supported_extensions =
     (let stats = [''new'' \<mapsto> 0, ''updated'' \<mapsto> 0, ''unchanged'' \<mapsto> 0, ''deleted'' \<mapsto> 0,
                   ''total'' \<mapsto> 0]
      in case index_loop sha256 now root
                (walk_corpus fnmatch root skip_patterns supported_extensions)
                ((db_session, stats, 0), {}) of
           ((db, stats1, ticks), seen_paths) \<Rightarrow> delete_unseen seen_paths db (db, stats1))"

text \<open>The loop of \<^verbatim>\<open>reindex_changed\<close>.\<close>

fun reindex_loop ::
  "(string \<Rightarrow> string) \<Rightarrow> (nat \<Rightarrow> datetime) \<Rightarrow> filesystem \<Rightarrow> meta list \<Rightarrow>
     catalog \<times> stats \<times> nat \<Rightarrow> catalog \<times> stats \<times> nat" where
  "reindex_loop sha256 now fs [] s = s"
| "reindex_loop sha256 now fs (m # ms) s =
     reindex_loop sha256 now fs ms (process_record sha256 now fs m s)"

text \<open>\<^verbatim>\<open>reindex_changed\<close>: the table after the commit, and the statistics returned.\<close>

definition reindex_changed ::
  "(string \<Rightarrow> string \<Rightarrow> bool) \<Rightarrow> (string \<Rightarrow> string) \<Rightarrow> (nat \<Rightarrow> datetime) \<Rightarrow> filesystem \<Rightarrow>
     catalog \<Rightarrow> string list option \<Rightarrow> string list option \<Rightarrow> catalog \<times> stats" where
  "reindex_changed fnmatch sha256 now root db_session skip_patterns supported_extensions =
     (let stats = [''new'' \<mapsto> 0, ''updated'' \<mapsto> 0, ''unchanged'' \<mapsto> 0, ''total'' \<mapsto> 0]
      in case reindex_loop sha256 now root
                (walk_corpus fnmatch root skip_patterns supported_extensions)
                (db_session, stats, 0) of
           (db, stats1, ticks) \<Rightarrow> (db, stats1))"

subsection \<open>Specification vocabulary\<close>

text \<open>
  A component of a relative path as a directory holds it: not empty, not \<^verbatim>\<open>'.'\<close>, and
  without a separator.
\<close>

definition valid_component :: "string \<Rightarrow> bool" where
  "valid_component c = (c \<noteq> [] \<and> c \<noteq> ''.'' \<and> CHR ''/'' \<notin> set c)"

text \<open>
  The files that the specification calls eligible: a regular file whose lowercased extension
  is supported, whose base name matches no skip pattern, and none of whose components, the
  directories above it included, begins with a dot.
\<close>

definition eligible ::
  "(string \<Rightarrow> string \<Rightarrow> bool) \<Rightarrow> string list \<Rightarrow> string list \<Rightarrow> fs_entry \<Rightarrow> bool" where
  "eligible fnmatch skip_patterns supported_extensions e =
     (\<not> is_dir e
      \<and> lower (path_suffix (parts e)) \<in> set supported_extensions
      \<and> (\<forall>pattern \<in> set skip_patterns. \<not> fnmatch (path_name (parts e)) pattern)
      \<and> (\<forall>part \<in> set (parts e). \<not> startswith part ''.''))"

text \<open>
  What a directory tree guarantees about the entries below its root: a path names one entry,
  and a path is a non-empty sequence of components.
\<close>

definition wf_tree :: "fs_entry list \<Rightarrow> bool" where
  "wf_tree entries =
     (distinct (map parts entries)
      \<and> (\<forall>e \<in> set entries. parts e \<noteq> [] \<and> list_all valid_component (parts e)))"

text \<open>A corpus root that is a directory holds a well-formed tree.\<close>

definition wf_root :: "filesystem \<Rightarrow> bool" where
  "wf_root root = (case root of None \<Rightarrow> True | Some entries \<Rightarrow> wf_tree entries)"

text \<open>The defaults that \<^verbatim>\<open>walk_corpus\<close> takes for an argument that is \<^verbatim>\<open>None\<close>.\<close>

definition skip_of :: "string list option \<Rightarrow> string list" where
  "skip_of skip_patterns = (case skip_patterns of None \<Rightarrow> DEFAULT_SKIP_PATTERNS | Some ps \<Rightarrow> ps)"

definition exts_of :: "string list option \<Rightarrow> string list" where
  "exts_of supported_extensions =
     (case supported_extensions of None \<Rightarrow> DEFAULT_SUPPORTED_EXTENSIONS | Some es \<Rightarrow> es)"

text \<open>The relative paths observed during a walk.\<close>

definition seen_of :: "meta list \<Rightarrow> string set" where
  "seen_of ms = meta.file_path ` set ms"

text \<open>
  The branch that the loop body takes for a record, against a given table: the hashing
  raised, or the path has no row, or it has a row whose hash differs, or one whose hash is
  equal. \<open>tally\<close> counts the records of a walk that take a branch; \<open>counted\<close> is what a
  walk adds to a key of the statistics.
\<close>

datatype outcome = Failed | New | Updated | Unchanged

definition classify :: "(string \<Rightarrow> string) \<Rightarrow> filesystem \<Rightarrow> catalog \<Rightarrow> meta \<Rightarrow> outcome" where
  "classify sha256 fs db m =
     (case compute_file_hash sha256 fs (absolute_path m) of
        Inl e \<Rightarrow> Failed
      | Inr digest \<Rightarrow>
          (case query_first db (meta.file_path m) of
             None \<Rightarrow> New
           | Some existing \<Rightarrow>
               if File.file_hash existing = Some digest then Unchanged else Updated))"

definition tally ::
  "(string \<Rightarrow> string) \<Rightarrow> filesystem \<Rightarrow> catalog \<Rightarrow> meta list \<Rightarrow> outcome \<Rightarrow> nat" where
  "tally sha256 fs db ms out = length (filter (\<lambda>m. classify sha256 fs db m = out) ms)"

definition counted ::
  "(string \<Rightarrow> string) \<Rightarrow> filesystem \<Rightarrow> catalog \<Rightarrow> meta list \<Rightarrow> string \<Rightarrow> nat" where
  "counted sha256 fs db ms key =
     (if key = ''total'' then length ms
      else if key = ''new'' then tally sha256 fs db ms New
      else if key = ''updated'' then tally sha256 fs db ms Updated
      else if key = ''unchanged'' then tally sha256 fs db ms Unchanged
      else 0)"

text \<open>The statistics with which \<^verbatim>\<open>index_corpus\<close> and \<^verbatim>\<open>reindex_changed\<close> start.\<close>

definition initial_full :: stats where
  "initial_full = [''new'' \<mapsto> 0, ''updated'' \<mapsto> 0, ''unchanged'' \<mapsto> 0, ''deleted'' \<mapsto> 0,
                   ''total'' \<mapsto> 0]"

definition initial_incremental :: stats where
  "initial_incremental = [''new'' \<mapsto> 0, ''updated'' \<mapsto> 0, ''unchanged'' \<mapsto> 0, ''total'' \<mapsto> 0]"

subsection \<open>A small corpus for the examples\<close>

text \<open>
  For the examples, \<^verbatim>\<open>fnmatch\<close> is taken on the patterns made of literal characters,
  \<^verbatim>\<open>?\<close> and \<^verbatim>\<open>*\<close> (the default skip patterns are of this kind), the hash of a file is
  taken to be its bytes, and the clock counts up from 100.
\<close>

fun glob_match :: "string \<Rightarrow> string \<Rightarrow> bool" where
  "glob_match [] [] = True"
| "glob_match (c # cs) [] = False"
| "glob_match [] (p # ps) = (p = CHR ''*'' \<and> glob_match [] ps)"
| "glob_match (c # cs) (p # ps) =
     (if p = CHR ''*'' then glob_match (c # cs) ps \<or> glob_match cs (p # ps)
      else (p = CHR ''?'' \<or> p = c) \<and> glob_match cs ps)"

text \<open>
  The corpus of the scenario of the specification, \<^verbatim>\<open>a.md\<close> and \<^verbatim>\<open>notes/b.txt\<close>, with a file
  \<^verbatim>\<open>c.md\<close> that cannot be read, and a row left in the table by an earlier run.
\<close>

definition file_a :: fs_entry where
  "file_a = \<lparr>parts = [''a.md''], is_dir = False, st_size = 3, st_ctime = 2, st_mtime = 3,
              content = Some ''abc''\<rparr>"

definition file_b :: fs_entry where
  "file_b = \<lparr>parts = [''notes'', ''b.txt''], is_dir = False, st_size = 2, st_ctime = 5,
              st_mtime = 6, content = Some ''bb''\<rparr>"

definition dir_notes :: fs_entry where
  "dir_notes = \<lparr>parts = [''notes''], is_dir = True, st_size = 0, st_ctime = 1, st_mtime = 1,
                 content = None\<rparr>"

definition file_locked :: fs_entry where
  "file_locked = \<lparr>parts = [''c.md''], is_dir = False, st_size = 4, st_ctime = 7, st_mtime = 8,
                   content = None\<rparr>"

definition stale_row :: File where
  "stale_row = \<lparr>File.file_name = ''c.md'', file_extension = ''.md'', file_size_bytes = 1,
                 parent_dir = [], corpus_section = None, created_at = None, modified_at = None,
                 indexed_at = 0, content_text = Some ''text'', file_hash = Some ''old''\<rparr>"

text \<open>
  Two directories of which one name continues the other, \<^verbatim>\<open>docs\<close> and \<^verbatim>\<open>docs.old\<close>, with a
  file in each.
\<close>

definition dir_docs :: fs_entry where
  "dir_docs = \<lparr>parts = [''docs''], is_dir = True, st_size = 0, st_ctime = 1, st_mtime = 1,
                content = None\<rparr>"

definition file_docs_y :: fs_entry where
  "file_docs_y = \<lparr>parts = [''docs'', ''y.md''], is_dir = False, st_size = 1, st_ctime = 2,
                   st_mtime = 2, content = Some ''y''\<rparr>"

definition dir_docs_old :: fs_entry where
  "dir_docs_old = \<lparr>parts = [''docs.old''], is_dir = True, st_size = 0, st_ctime = 1,
                    st_mtime = 1, content = None\<rparr>"

definition file_docs_old_x :: fs_entry where
  "file_docs_old_x = \<lparr>parts = [''docs.old'', ''x.md''], is_dir = False, st_size = 1,
                       st_ctime = 2, st_mtime = 2, content = Some ''x''\<rparr>"

definition plain_hash :: "string \<Rightarrow> string" where
  "plain_hash bytes = bytes"

definition tick :: "nat \<Rightarrow> datetime" where
  "tick k = 100 + int k"

section \<open>Properties\<close>

subsection \<open>Paths: splitting a joined path gives its components back\<close>

lemma str_split_no_sep: "c \<notin> set x \<Longrightarrow> str_split c x = [x]"
  by (induction x) auto

lemma str_split_append_sep:
  "c \<notin> set x \<Longrightarrow> str_split c (x @ c # rest) = x # str_split c rest"
  by (induction x) auto

lemma str_split_join:
  "cs \<noteq> [] \<Longrightarrow> \<forall>x \<in> set cs. c \<notin> set x \<Longrightarrow> str_split c (str_join [c] cs) = cs"
proof (induction "[c]" cs rule: str_join.induct)
  case 1
  then show ?case by simp
next
  case (2 x)
  then show ?case by (simp add: str_split_no_sep)
next
  case (3 x y ys)
  then show ?case by (simp add: str_split_append_sep)
qed

lemma str_join_Cons: "str_join s (x # xs) = (if xs = [] then x else x @ s @ str_join s xs)"
  by (cases xs) auto

lemma splitroot_relative: "take 1 p \<noteq> ''/'' \<Longrightarrow> splitroot p = ([], p)"
  by (simp add: splitroot_def)

lemma take1_join:
  assumes "cs \<noteq> []" "valid_component (hd cs)"
  shows "take 1 (str_join ''/'' cs) \<noteq> ''/''"
proof -
  obtain x xs where cs: "cs = x # xs" using assms(1) by (cases cs) auto
  with assms(2) obtain a as where x: "x = a # as" and "a \<noteq> CHR ''/''"
    by (cases x) (auto simp: valid_component_def)
  then show ?thesis by (simp add: cs str_join_Cons)
qed

lemma path_parts_path_str:
  assumes "cs \<noteq> []" "list_all valid_component cs"
  shows "path_parts (path_str cs) = cs"
proof -
  have nosep: "\<forall>x \<in> set cs. CHR ''/'' \<notin> set x"
    using assms(2) by (auto simp: list_all_iff valid_component_def)
  have keep: "filter (\<lambda>x. x \<noteq> [] \<and> x \<noteq> ''.'') cs = cs"
    using assms(2) by (auto simp: list_all_iff valid_component_def intro: filter_True)
  have "valid_component (hd cs)" using assms by (cases cs) auto
  then have "splitroot (str_join ''/'' cs) = ([], str_join ''/'' cs)"
    using assms(1) by (intro splitroot_relative take1_join)
  then show ?thesis
    using assms(1) str_split_join[OF assms(1) nosep] keep
    by (simp add: path_parts_def path_str_def)
qed

subsection \<open>Section derivation\<close>

text \<open>
  Claim C8. For every relative path, the section is the first component of the path when
  splitting it gives more than one component, and null otherwise. For a path written from
  its components the split gives those components back, so the section is the first of
  them when there are several. \<^verbatim>\<open>docs/guides/setup.md\<close> has the section \<^verbatim>\<open>docs\<close>, and
  \<^verbatim>\<open>readme.txt\<close> has none.
\<close>

theorem determine_corpus_section_spec:
  "determine_corpus_section p =
     (if 1 < length (path_parts p) then Some (hd (path_parts p)) else None)
   \<and> (cs \<noteq> [] \<and> list_all valid_component cs \<longrightarrow>
        determine_corpus_section (path_str cs) = (if 1 < length cs then Some (hd cs) else None))
   \<and> determine_corpus_section ''docs/guides/setup.md'' = Some ''docs''
   \<and> determine_corpus_section ''readme.txt'' = None"
proof (intro conjI impI)
  show "determine_corpus_section p =
     (if 1 < length (path_parts p) then Some (hd (path_parts p)) else None)"
    by (simp add: determine_corpus_section_def Let_def)
  show "determine_corpus_section (path_str cs) = (if 1 < length cs then Some (hd cs) else None)"
    if "cs \<noteq> [] \<and> list_all valid_component cs"
    using that by (simp add: determine_corpus_section_def Let_def path_parts_path_str)
  show "determine_corpus_section ''docs/guides/setup.md'' = Some ''docs''"
    by (simp add: determine_corpus_section_def path_parts_def splitroot_def)
  show "determine_corpus_section ''readme.txt'' = None"
    by (simp add: determine_corpus_section_def path_parts_def splitroot_def)
qed

theorem determine_corpus_section_spec_witness:
  "[''notes'', ''b.txt''] \<noteq> [] \<and> list_all valid_component [''notes'', ''b.txt'']
   \<and> determine_corpus_section ''notes/b.txt'' = Some ''notes''
   \<and> path_parts ''notes/b.txt'' = [''notes'', ''b.txt'']"
  using determine_corpus_section_spec [of "''notes/b.txt''" "[''notes'', ''b.txt'']"]
  by (simp add: valid_component_def path_str_def path_parts_def splitroot_def)

subsection \<open>The walker\<close>

lemma should_skip_iff: "should_skip fnmatch name ps \<longleftrightarrow> (\<exists>pattern \<in> set ps. fnmatch name pattern)"
  by (induction ps) auto

lemma walk_items_eq:
  "walk_items fnmatch sk ex items = map make_meta (filter (eligible fnmatch sk ex) items)"
  by (induction items) (auto simp: eligible_def should_skip_iff list_ex_iff)

lemma walk_corpus_Some:
  "walk_corpus fnmatch (Some es) sk ex =
     map make_meta (filter (eligible fnmatch (skip_of sk) (exts_of ex)) (sort_key parts es))"
  by (simp add: walk_corpus_def walk_items_eq skip_of_def exts_of_def)

lemma walk_corpus_None: "walk_corpus fnmatch None sk ex = []"
  by (simp add: walk_corpus_def)

lemma absolute_path_make_meta: "absolute_path (make_meta e) = parts e"
  by (simp add: make_meta_def Let_def)

lemma file_path_make_meta: "meta.file_path (make_meta e) = path_str (parts e)"
  by (simp add: make_meta_def Let_def)

lemma sorted_walk_corpus: "sorted (map absolute_path (walk_corpus fnmatch root sk ex))"
proof (cases root)
  case None
  then show ?thesis by (simp add: walk_corpus_None)
next
  case (Some es)
  have "sorted (map parts (filter (eligible fnmatch (skip_of sk) (exts_of ex)) (sort_key parts es)))"
    by (rule sorted_filter) simp
  then show ?thesis
    by (simp add: Some walk_corpus_Some comp_def absolute_path_make_meta)
qed

lemma filter_key_singleton:
  "distinct (map f xs) \<Longrightarrow> k \<in> set xs \<Longrightarrow> filter (\<lambda>x. f k = f x) xs = [k]"
proof (induction xs)
  case Nil
  then show ?case by simp
next
  case (Cons x xs)
  show ?case
  proof (cases "k = x")
    case True
    have "filter (\<lambda>y. f x = f y) xs = []"
      using Cons.prems(1) by (auto simp: filter_empty_conv)
    then show ?thesis using True by simp
  next
    case False
    then have "k \<in> set xs" using Cons.prems(2) by simp
    moreover have "f x \<notin> f ` set xs" using Cons.prems(1) by simp
    then have "f k \<noteq> f x" using \<open>k \<in> set xs\<close> by (metis imageI)
    ultimately show ?thesis using Cons by simp
  qed
qed

lemma sort_key_perm:
  assumes "mset es = mset es'" "distinct (map f es)"
  shows "sort_key f es = sort_key f es'"
proof (rule sym, rule properties_for_sort_key)
  show "mset (sort_key f es) = mset es'" using assms(1) by simp
  show "sorted (map f (sort_key f es))" by simp
  fix k assume "k \<in> set (sort_key f es)"
  then have k: "k \<in> set es" by simp
  have "mset (map f es') = mset (map f es)" using assms(1) by simp
  then have d': "distinct (map f es')"
    using assms(2) mset_eq_imp_distinct_iff by blast
  have k': "k \<in> set es'" using k assms(1) mset_eq_setD by blast
  have "distinct (map f (sort_key f es))" using assms(2) by (simp add: distinct_map)
  then have "filter (\<lambda>x. f k = f x) (sort_key f es) = [k]"
    using k by (intro filter_key_singleton) simp_all
  moreover have "filter (\<lambda>x. f k = f x) es' = [k]"
    using d' k' by (rule filter_key_singleton)
  ultimately show "filter (\<lambda>x. f k = f x) (sort_key f es) = filter (\<lambda>x. f k = f x) es'"
    by simp
qed

lemma walk_corpus_enumeration_order:
  assumes "mset es = mset es'" "distinct (map parts es)"
  shows "walk_corpus fnmatch (Some es) sk ex = walk_corpus fnmatch (Some es') sk ex"
  by (simp add: walk_corpus_Some sort_key_perm[OF assms])

subsection \<open>Table operations and counters\<close>

lemma map_of_set_row:
  "map_of (set_row db p row) q = (if q = p \<and> map_of db p \<noteq> None then Some row else map_of db q)"
  by (induction db p row rule: set_row.induct) auto

lemma keys_set_row: "map fst (set_row db p row) = map fst db"
  by (induction db p row rule: set_row.induct) auto

lemma map_of_add_row:
  "map_of (add_row db p row) q =
     (case map_of db q of Some r \<Rightarrow> Some r | None \<Rightarrow> if q = p then Some row else None)"
  by (auto simp: add_row_def map_add_def split: option.splits)

lemma keys_add_row: "map fst (add_row db p row) = map fst db @ [p]"
  by (simp add: add_row_def)

lemma map_of_None_iff: "map_of db p = None \<longleftrightarrow> p \<notin> set (map fst db)"
  by (simp add: map_of_eq_None_iff)

lemma incr_apply: "incr key st k = (if k = key then map_option Suc (st k) else st k)"
  by (auto simp: incr_def split: option.splits)

subsection \<open>One record\<close>

lemma process_record_cases:
  "process_record sha256 now fs m (db, st, t) =
     (case classify sha256 fs db m of
        Failed \<Rightarrow> (db, incr ''total'' st, t)
      | Unchanged \<Rightarrow> (db, incr ''unchanged'' (incr ''total'' st), t)
      | Updated \<Rightarrow>
          (set_row db (meta.file_path m)
             (update_existing (the (map_of db (meta.file_path m))) m
                (projr (compute_file_hash sha256 fs (absolute_path m))) (now t)),
           incr ''updated'' (incr ''total'' st), Suc t)
      | New \<Rightarrow>
          (add_row db (meta.file_path m)
             (new_file m (projr (compute_file_hash sha256 fs (absolute_path m))) (now t)),
           incr ''new'' (incr ''total'' st), Suc t))"
  by (simp add: process_record_def classify_def query_first_def Let_def
        split: sum.splits option.splits)

lemma classify_Failed_iff:
  "classify sha256 fs db m = Failed \<longleftrightarrow> isl (compute_file_hash sha256 fs (absolute_path m))"
  by (simp add: classify_def split: sum.splits option.splits)

lemma classify_New_iff:
  "classify sha256 fs db m = New \<longleftrightarrow>
     \<not> isl (compute_file_hash sha256 fs (absolute_path m)) \<and> map_of db (meta.file_path m) = None"
  by (simp add: classify_def query_first_def split: sum.splits option.splits)

lemma classify_Unchanged_iff:
  "classify sha256 fs db m = Unchanged \<longleftrightarrow>
     (\<exists>h r. compute_file_hash sha256 fs (absolute_path m) = Inr h
        \<and> map_of db (meta.file_path m) = Some r \<and> File.file_hash r = Some h)"
  by (auto simp: classify_def query_first_def split: sum.splits option.splits)

lemma classify_Updated_iff:
  "classify sha256 fs db m = Updated \<longleftrightarrow>
     (\<exists>h r. compute_file_hash sha256 fs (absolute_path m) = Inr h
        \<and> map_of db (meta.file_path m) = Some r \<and> File.file_hash r \<noteq> Some h)"
  by (auto simp: classify_def query_first_def split: sum.splits option.splits)

lemma classify_cong:
  "map_of db1 (meta.file_path m) = map_of db2 (meta.file_path m) \<Longrightarrow>
   classify sha256 fs db1 m = classify sha256 fs db2 m"
  by (auto simp: classify_def query_first_def split: sum.splits)

lemma pr_db_other:
  "p \<noteq> meta.file_path m \<Longrightarrow> map_of (fst (process_record sha256 now fs m s)) p = map_of (fst s) p"
  by (cases s) (auto simp: process_record_cases map_of_set_row map_of_add_row
      split: outcome.splits option.splits)

lemma pr_keep:
  "classify sha256 fs (fst s) m = Failed \<or> classify sha256 fs (fst s) m = Unchanged \<Longrightarrow>
   fst (process_record sha256 now fs m s) = fst s"
  by (cases s) (auto simp: process_record_cases)

lemma pr_ticks_keep:
  "classify sha256 fs (fst s) m = Failed \<or> classify sha256 fs (fst s) m = Unchanged \<Longrightarrow>
   snd (snd (process_record sha256 now fs m s)) = snd (snd s)"
  by (cases s) (auto simp: process_record_cases)

lemma pr_hash:
  assumes "compute_file_hash sha256 fs (absolute_path m) = Inr h"
  shows "\<exists>r. map_of (fst (process_record sha256 now fs m s)) (meta.file_path m) = Some r
           \<and> File.file_hash r = Some h"
proof (cases s)
  case (fields db st t)
  show ?thesis
  proof (cases "classify sha256 fs db m")
    case Failed
    then show ?thesis using assms by (simp add: classify_Failed_iff)
  next
    case New
    then have "map_of db (meta.file_path m) = None" by (simp add: classify_New_iff)
    then show ?thesis using assms
      by (simp add: fields process_record_cases New map_of_add_row new_file_def)
  next
    case Updated
    then obtain r where "map_of db (meta.file_path m) = Some r"
      by (auto simp: classify_Updated_iff)
    then show ?thesis using assms
      by (simp add: fields process_record_cases Updated map_of_set_row update_existing_def)
  next
    case Unchanged
    then obtain r where "map_of db (meta.file_path m) = Some r" "File.file_hash r = Some h"
      using assms by (auto simp: classify_Unchanged_iff)
    then show ?thesis
      by (simp add: fields process_record_cases Unchanged)
  qed
qed

lemma pr_keys:
  "map fst (fst (process_record sha256 now fs m s)) =
     map fst (fst s) @ (if classify sha256 fs (fst s) m = New then [meta.file_path m] else [])"
  by (cases s) (auto simp: process_record_cases keys_set_row keys_add_row split: outcome.splits)

lemma pr_stats:
  "fst (snd (process_record sha256 now fs m s)) k =
     map_option (\<lambda>n. n + counted sha256 fs (fst s) [m] k) (fst (snd s) k)"
  by (cases s; cases "classify sha256 fs (fst s) m")
     (auto simp: process_record_cases incr_apply counted_def tally_def option.map_comp comp_def
           option.map_ident)

subsection \<open>The loop over the records\<close>

lemma rl_db_other:
  "p \<notin> meta.file_path ` set ms \<Longrightarrow>
   map_of (fst (reindex_loop sha256 now fs ms s)) p = map_of (fst s) p"
  by (induction ms arbitrary: s) (auto simp: pr_db_other)

lemma rl_keep:
  "\<forall>m \<in> set ms. classify sha256 fs (fst s) m = Failed \<or> classify sha256 fs (fst s) m = Unchanged \<Longrightarrow>
   fst (reindex_loop sha256 now fs ms s) = fst s"
proof (induction ms arbitrary: s)
  case Nil
  then show ?case by simp
next
  case (Cons m ms)
  have keep: "fst (process_record sha256 now fs m s) = fst s"
    using Cons.prems by (intro pr_keep) simp
  have "fst (reindex_loop sha256 now fs ms (process_record sha256 now fs m s)) =
        fst (process_record sha256 now fs m s)"
    using Cons.prems by (intro Cons.IH) (simp add: keep)
  then show ?case by (simp add: keep)
qed

lemma rl_hash:
  assumes "distinct (map meta.file_path ms)" "m \<in> set ms"
    and "compute_file_hash sha256 fs (absolute_path m) = Inr h"
  shows "\<exists>r. map_of (fst (reindex_loop sha256 now fs ms s)) (meta.file_path m) = Some r
           \<and> File.file_hash r = Some h"
  using assms(1,2)
proof (induction ms arbitrary: s)
  case Nil
  then show ?case by simp
next
  case (Cons x xs)
  show ?case
  proof (cases "m = x")
    case True
    have "meta.file_path m \<notin> meta.file_path ` set xs" using Cons.prems(1) True by simp
    then have "map_of (fst (reindex_loop sha256 now fs xs (process_record sha256 now fs m s)))
                 (meta.file_path m) =
               map_of (fst (process_record sha256 now fs m s)) (meta.file_path m)"
      by (rule rl_db_other)
    then show ?thesis using pr_hash[OF assms(3), of now s] True by simp
  next
    case False
    then have "m \<in> set xs" using Cons.prems(2) by simp
    then show ?thesis using Cons.IH Cons.prems(1) by simp
  qed
qed

lemma rl_same:
  assumes "distinct (map meta.file_path ms)" "m \<in> set ms"
    and "classify sha256 fs (fst s) m = Failed \<or> classify sha256 fs (fst s) m = Unchanged"
  shows "map_of (fst (reindex_loop sha256 now fs ms s)) (meta.file_path m) =
         map_of (fst s) (meta.file_path m)"
  using assms
proof (induction ms arbitrary: s)
  case Nil
  then show ?case by simp
next
  case (Cons x xs)
  show ?case
  proof (cases "m = x")
    case True
    have "meta.file_path m \<notin> meta.file_path ` set xs" using Cons.prems(1) True by simp
    then have "map_of (fst (reindex_loop sha256 now fs xs (process_record sha256 now fs m s)))
                 (meta.file_path m) =
               map_of (fst (process_record sha256 now fs m s)) (meta.file_path m)"
      by (rule rl_db_other)
    then show ?thesis using pr_keep[OF Cons.prems(3), of now] True by simp
  next
    case False
    then have mem: "m \<in> set xs" using Cons.prems(2) by simp
    moreover have "meta.file_path x \<notin> meta.file_path ` set xs" using Cons.prems(1) by simp
    ultimately have ne: "meta.file_path m \<noteq> meta.file_path x" by (metis imageI)
    have same: "map_of (fst (process_record sha256 now fs x s)) (meta.file_path m) =
                map_of (fst s) (meta.file_path m)"
      using ne by (rule pr_db_other)
    have "classify sha256 fs (fst (process_record sha256 now fs x s)) m = classify sha256 fs (fst s) m"
      using same by (rule classify_cong)
    then have "map_of (fst (reindex_loop sha256 now fs xs (process_record sha256 now fs x s)))
                 (meta.file_path m) =
               map_of (fst (process_record sha256 now fs x s)) (meta.file_path m)"
      using Cons.prems(1,3) mem by (intro Cons.IH) simp_all
    then show ?thesis using same by simp
  qed
qed

lemma pr_keys_set:
  "set (map fst (fst (process_record sha256 now fs m s))) =
     set (map fst (fst s)) \<union>
       (if isl (compute_file_hash sha256 fs (absolute_path m)) then {} else {meta.file_path m})"
proof (cases "classify sha256 fs (fst s) m")
  case Failed
  then show ?thesis by (simp add: pr_keys) (simp add: classify_Failed_iff)
next
  case New
  then show ?thesis by (simp add: pr_keys) (simp add: classify_New_iff)
next
  case Updated
  then have "\<not> isl (compute_file_hash sha256 fs (absolute_path m))"
    and "map_of (fst s) (meta.file_path m) \<noteq> None"
    by (auto simp: classify_Updated_iff)
  then show ?thesis using Updated by (auto simp: pr_keys map_of_None_iff)
next
  case Unchanged
  then have "\<not> isl (compute_file_hash sha256 fs (absolute_path m))"
    and "map_of (fst s) (meta.file_path m) \<noteq> None"
    by (auto simp: classify_Unchanged_iff)
  then show ?thesis using Unchanged by (auto simp: pr_keys map_of_None_iff)
qed

lemma rl_keys:
  "set (map fst (fst (reindex_loop sha256 now fs ms s))) =
     set (map fst (fst s)) \<union>
       meta.file_path ` {m \<in> set ms. \<not> isl (compute_file_hash sha256 fs (absolute_path m))}"
proof (induction ms arbitrary: s)
  case Nil
  then show ?case by simp
next
  case (Cons x xs)
  have "{m \<in> set (x # xs). \<not> isl (compute_file_hash sha256 fs (absolute_path m))} =
        (if isl (compute_file_hash sha256 fs (absolute_path x)) then {} else {x}) \<union>
        {m \<in> set xs. \<not> isl (compute_file_hash sha256 fs (absolute_path m))}"
    by auto
  then show ?case
    unfolding reindex_loop.simps Cons.IH pr_keys_set by (simp add: image_Un Un_assoc)
qed

lemma pr_distinct:
  "distinct (map fst (fst s)) \<Longrightarrow> distinct (map fst (fst (process_record sha256 now fs m s)))"
  by (auto simp: pr_keys classify_New_iff map_of_None_iff)

lemma rl_distinct:
  "distinct (map fst (fst s)) \<Longrightarrow> distinct (map fst (fst (reindex_loop sha256 now fs ms s)))"
  by (induction ms arbitrary: s) (simp_all add: pr_distinct)

lemma rl_filter_keys:
  "meta.file_path ` set ms \<subseteq> S \<Longrightarrow>
   filter (\<lambda>p. p \<notin> S) (map fst (fst (reindex_loop sha256 now fs ms s))) =
   filter (\<lambda>p. p \<notin> S) (map fst (fst s))"
  by (induction ms arbitrary: s) (auto simp: pr_keys)

lemma counted_Cons:
  "counted sha256 fs db (m # ms) k = counted sha256 fs db [m] k + counted sha256 fs db ms k"
  by (simp add: counted_def tally_def)

lemma counted_cong:
  assumes "\<forall>m \<in> set ms. map_of db1 (meta.file_path m) = map_of db2 (meta.file_path m)"
  shows "counted sha256 fs db1 ms k = counted sha256 fs db2 ms k"
proof -
  have "filter (\<lambda>m. classify sha256 fs db1 m = out) ms = filter (\<lambda>m. classify sha256 fs db2 m = out) ms"
    for out
  proof (intro filter_cong refl)
    fix m assume "m \<in> set ms"
    then have "map_of db1 (meta.file_path m) = map_of db2 (meta.file_path m)"
      using assms by simp
    then show "(classify sha256 fs db1 m = out) = (classify sha256 fs db2 m = out)"
      using classify_cong[of db1 m db2 sha256 fs] by simp
  qed
  then show ?thesis by (simp add: counted_def tally_def)
qed

lemma rl_stats:
  "distinct (map meta.file_path ms) \<Longrightarrow>
   fst (snd (reindex_loop sha256 now fs ms s)) k =
     map_option (\<lambda>n. n + counted sha256 fs (fst s) ms k) (fst (snd s) k)"
proof (induction ms arbitrary: s)
  case Nil
  then show ?case by (simp add: counted_def tally_def option.map_ident)
next
  case (Cons x xs)
  let ?s1 = "process_record sha256 now fs x s"
  have "meta.file_path x \<notin> meta.file_path ` set xs" using Cons.prems by simp
  then have "\<forall>m \<in> set xs. meta.file_path m \<noteq> meta.file_path x" by (metis imageI)
  then have "\<forall>m \<in> set xs. map_of (fst ?s1) (meta.file_path m) = map_of (fst s) (meta.file_path m)"
    by (simp add: pr_db_other)
  then have c: "counted sha256 fs (fst ?s1) xs k = counted sha256 fs (fst s) xs k"
    by (rule counted_cong)
  have "fst (snd (reindex_loop sha256 now fs xs ?s1)) k =
        map_option (\<lambda>n. n + counted sha256 fs (fst ?s1) xs k) (fst (snd ?s1) k)"
    using Cons.prems by (intro Cons.IH) simp
  then show ?case
    by (simp add: c pr_stats counted_Cons[of _ _ _ x xs] option.map_comp comp_def add.assoc)
qed

subsection \<open>The seen paths and the deletion loop\<close>

lemma index_loop_eq:
  "index_loop sha256 now fs ms (s, seen) =
     (reindex_loop sha256 now fs ms s, seen \<union> meta.file_path ` set ms)"
  by (induction ms arbitrary: s seen) auto

lemma du_db:
  "fst (delete_unseen seen rows (db, st)) =
     filter (\<lambda>(p, r). p \<in> seen \<or> p \<notin> fst ` set rows) db"
proof (induction rows arbitrary: db st)
  case Nil
  then show ?case by simp
next
  case (Cons x xs)
  show ?case
  proof (cases "fst x \<in> seen")
    case True
    have "filter (\<lambda>(p, r). p \<in> seen \<or> p \<notin> fst ` set xs) db =
          filter (\<lambda>(p, r). p \<in> seen \<or> p \<notin> fst ` set (x # xs)) db"
      using True by (intro filter_cong) auto
    then show ?thesis using True by (simp add: Cons.IH)
  next
    case False
    have "filter (\<lambda>(p, r). p \<in> seen \<or> p \<notin> fst ` set xs) (delete_row db (fst x)) =
          filter (\<lambda>(p, r). p \<in> seen \<or> p \<notin> fst ` set (x # xs)) db"
      unfolding delete_row_def filter_filter using False by (intro filter_cong) auto
    then show ?thesis using False by (simp add: Cons.IH)
  qed
qed

lemma du_stats:
  "snd (delete_unseen seen rows (db, st)) k =
     (if k = ''deleted''
      then map_option (\<lambda>n. n + length (filter (\<lambda>r. fst r \<notin> seen) rows)) (st k)
      else st k)"
  by (induction rows arbitrary: db st)
     (auto simp: incr_apply option.map_comp comp_def option.map_ident)

subsection \<open>A whole run\<close>

lemma rl_stats_other:
  "k \<noteq> ''total'' \<Longrightarrow> k \<noteq> ''new'' \<Longrightarrow> k \<noteq> ''updated'' \<Longrightarrow> k \<noteq> ''unchanged'' \<Longrightarrow>
   fst (snd (reindex_loop sha256 now fs ms s)) k = fst (snd s) k"
  by (induction ms arbitrary: s) (simp_all add: pr_stats counted_def option.map_ident)

lemma length_filter_fst:
  "length (filter (\<lambda>r. fst r \<notin> S) xs) = length (filter (\<lambda>p. p \<notin> S) (map fst xs))"
  by (simp add: filter_map comp_def)

lemma index_corpus_fst:
  "fst (index_corpus fnmatch sha256 now root db sk ex) =
     filter (\<lambda>(p, r). p \<in> seen_of (walk_corpus fnmatch root sk ex))
       (fst (reindex_loop sha256 now root (walk_corpus fnmatch root sk ex) (db, initial_full, 0)))"
proof -
  let ?ms = "walk_corpus fnmatch root sk ex"
  obtain db1 st1 t1 where s1: "reindex_loop sha256 now root ?ms (db, initial_full, 0) = (db1, st1, t1)"
    by (cases "reindex_loop sha256 now root ?ms (db, initial_full, 0)") auto
  have "filter (\<lambda>(p, r). p \<in> seen_of ?ms \<or> p \<notin> fst ` set db1) db1 =
        filter (\<lambda>(p, r). p \<in> seen_of ?ms) db1"
    by (intro filter_cong) force+
  then show ?thesis
    using s1 by (simp add: index_corpus_def index_loop_eq initial_full_def[symmetric] du_db seen_of_def)
qed

lemma index_corpus_snd:
  "snd (index_corpus fnmatch sha256 now root db sk ex) k =
     (if k = ''deleted''
      then Some (length (filter (\<lambda>r. fst r \<notin> seen_of (walk_corpus fnmatch root sk ex)) db))
      else fst (snd (reindex_loop sha256 now root (walk_corpus fnmatch root sk ex)
                       (db, initial_full, 0))) k)"
proof -
  let ?ms = "walk_corpus fnmatch root sk ex"
  obtain db1 st1 t1 where s1: "reindex_loop sha256 now root ?ms (db, initial_full, 0) = (db1, st1, t1)"
    by (cases "reindex_loop sha256 now root ?ms (db, initial_full, 0)") auto
  have d: "st1 ''deleted'' = Some 0"
    using rl_stats_other[of "''deleted''" sha256 now root ?ms "(db, initial_full, 0)"] s1
    by (simp add: initial_full_def)
  have "filter (\<lambda>p. p \<notin> seen_of ?ms) (map fst db1) = filter (\<lambda>p. p \<notin> seen_of ?ms) (map fst db)"
    using rl_filter_keys[of ?ms "seen_of ?ms" sha256 now root "(db, initial_full, 0)"] s1
    by (simp add: seen_of_def)
  then have "length (filter (\<lambda>r. fst r \<notin> seen_of ?ms) db1) =
             length (filter (\<lambda>r. fst r \<notin> seen_of ?ms) db)"
    by (simp add: length_filter_fst)
  then show ?thesis
    using s1 d by (simp add: index_corpus_def index_loop_eq initial_full_def[symmetric] du_stats
        seen_of_def)
qed

lemma reindex_changed_fst:
  "fst (reindex_changed fnmatch sha256 now root db sk ex) =
     fst (reindex_loop sha256 now root (walk_corpus fnmatch root sk ex) (db, initial_incremental, 0))"
  by (simp add: reindex_changed_def initial_incremental_def split: prod.splits)

lemma reindex_changed_snd:
  "snd (reindex_changed fnmatch sha256 now root db sk ex) =
     fst (snd (reindex_loop sha256 now root (walk_corpus fnmatch root sk ex)
                 (db, initial_incremental, 0)))"
  by (simp add: reindex_changed_def initial_incremental_def split: prod.splits)

lemma map_of_filter_key:
  "map_of (filter (\<lambda>(p, r). p \<in> A) db) k = (if k \<in> A then map_of db k else None)"
  by (induction db) auto

subsection \<open>Well-formed trees\<close>

lemma path_str_inj:
  assumes "cs \<noteq> []" "list_all valid_component cs" "ds \<noteq> []" "list_all valid_component ds"
    and "path_str cs = path_str ds"
  shows "cs = ds"
  using assms path_parts_path_str by metis

lemma wf_tree_inj: "wf_tree es \<Longrightarrow> inj_on (\<lambda>e. path_str (parts e)) (set es)"
proof (rule inj_onI)
  fix x y assume wf: "wf_tree es" and x: "x \<in> set es" and y: "y \<in> set es"
    and eq: "path_str (parts x) = path_str (parts y)"
  have "parts x = parts y"
    using wf x y eq by (intro path_str_inj) (auto simp: wf_tree_def)
  moreover have "inj_on parts (set es)" using wf by (simp add: wf_tree_def distinct_map)
  ultimately show "x = y" using x y by (auto dest: inj_onD)
qed

lemma distinct_walk_corpus:
  assumes "wf_tree es"
  shows "distinct (map meta.file_path (walk_corpus fnmatch (Some es) sk ex))"
proof -
  let ?xs = "filter (eligible fnmatch (skip_of sk) (exts_of ex)) (sort_key parts es)"
  have d: "distinct es" using assms by (simp add: wf_tree_def distinct_map)
  have "inj_on (\<lambda>e. path_str (parts e)) (set ?xs)"
    using wf_tree_inj[OF assms] by (rule inj_on_subset) auto
  moreover have "distinct ?xs" using d by simp
  ultimately have "distinct (map (\<lambda>e. path_str (parts e)) ?xs)"
    by (simp add: distinct_map)
  then show ?thesis
    by (simp add: walk_corpus_Some comp_def file_path_make_meta)
qed

lemma distinct_walk_root:
  "wf_root root \<Longrightarrow> distinct (map meta.file_path (walk_corpus fnmatch root sk ex))"
  by (cases root) (simp_all add: wf_root_def walk_corpus_None distinct_walk_corpus)


lemma set_walk_corpus:
  "set (walk_corpus fnmatch (Some es) sk ex) =
     make_meta ` {e \<in> set es. eligible fnmatch (skip_of sk) (exts_of ex) e}"
  by (auto simp: walk_corpus_Some)

lemma find_parts:
  "distinct (map parts es) \<Longrightarrow> e \<in> set es \<Longrightarrow> find (\<lambda>x. parts x = parts e) es = Some e"
proof (induction es)
  case Nil
  then show ?case by simp
next
  case (Cons x xs)
  show ?case
  proof (cases "parts x = parts e")
    case True
    have "parts x \<notin> parts ` set xs" using Cons.prems(1) by simp
    then have "e \<notin> set xs" using True by (metis imageI)
    then show ?thesis using Cons.prems(2) True by simp
  next
    case False
    then show ?thesis using Cons by auto
  qed
qed

lemma hash_of_entry:
  assumes "wf_tree es" "e \<in> set es" "\<not> is_dir e"
  shows "compute_file_hash sha256 (Some es) (parts e) =
           (case content e of None \<Rightarrow> Inl OSError | Some bytes \<Rightarrow> Inr (sha256 bytes))"
  using find_parts[of es e] assms by (simp add: compute_file_hash_def wf_tree_def)

lemma hash_of_meta:
  assumes "wf_tree es" "e \<in> set es" "eligible fnmatch skip exts e"
  shows "compute_file_hash sha256 (Some es) (absolute_path (make_meta e)) =
           (case content e of None \<Rightarrow> Inl OSError | Some bytes \<Rightarrow> Inr (sha256 bytes))"
  using hash_of_entry[OF assms(1,2)] assms(3) by (simp add: absolute_path_make_meta eligible_def)

text \<open>
  Claim C9, as amended. The records of \<^verbatim>\<open>walk_corpus\<close> come in the order of their paths
  taken as sequences of components, each component compared as a string: the order in which
  \<^verbatim>\<open>sorted\<close> puts \<^verbatim>\<open>Path\<close> objects. The sequence does not depend on the order in which the
  operating system enumerates the tree: two enumerations of the same entries give the same
  records, so two walks over an unchanged tree agree.
\<close>

theorem walk_corpus_order:
  "sorted (map absolute_path (walk_corpus fnmatch root sk ex))
   \<and> (mset es = mset es' \<and> distinct (map parts es) \<longrightarrow>
        walk_corpus fnmatch (Some es) sk ex = walk_corpus fnmatch (Some es') sk ex)"
  using sorted_walk_corpus walk_corpus_enumeration_order by blast

theorem walk_corpus_order_witness:
  "mset [file_b, dir_notes, file_a] = mset [file_a, file_b, dir_notes]
   \<and> distinct (map parts [file_b, dir_notes, file_a])
   \<and> walk_corpus glob_match (Some [file_b, dir_notes, file_a]) None None =
       walk_corpus glob_match (Some [file_a, file_b, dir_notes]) None None
   \<and> sorted (map absolute_path (walk_corpus glob_match (Some [file_b, dir_notes, file_a]) None None))
   \<and> map absolute_path (walk_corpus glob_match (Some [file_b, dir_notes, file_a]) None None) =
       [[''a.md''], [''notes'', ''b.txt'']]"
proof -
  have h1: "mset [file_b, dir_notes, file_a] = mset [file_a, file_b, dir_notes]" by simp
  have h2: "distinct (map parts [file_b, dir_notes, file_a])" by code_simp
  have h3: "map absolute_path (walk_corpus glob_match (Some [file_b, dir_notes, file_a]) None None) =
       [[''a.md''], [''notes'', ''b.txt'']]" by code_simp
  show ?thesis
    using h1 h2 h3
      walk_corpus_order[of glob_match "Some [file_b, dir_notes, file_a]" None None
        "[file_b, dir_notes, file_a]" "[file_a, file_b, dir_notes]"]
    by blast
qed

text \<open>
  Claim C9 as stated fails for the path strings that the records carry: \<^verbatim>\<open>docs/y.md\<close> is
  yielded before \<^verbatim>\<open>docs.old/x.md\<close>, because \<^verbatim>\<open>docs\<close> is a prefix of \<^verbatim>\<open>docs.old\<close>, while as
  strings \<^verbatim>\<open>docs.old/x.md\<close> comes first, the dot being below the separator.
\<close>

theorem joined_paths_not_sorted:
  "wf_tree [dir_docs_old, file_docs_old_x, dir_docs, file_docs_y]
   \<and> map meta.file_path
        (walk_corpus glob_match (Some [dir_docs_old, file_docs_old_x, dir_docs, file_docs_y])
           None None) = [''docs/y.md'', ''docs.old/x.md'']
   \<and> ''docs.old/x.md'' < ''docs/y.md''
   \<and> \<not> sorted (map meta.file_path
        (walk_corpus glob_match (Some [dir_docs_old, file_docs_old_x, dir_docs, file_docs_y])
           None None))"
  by code_simp

subsection \<open>The paths of the catalog after a full run\<close>

lemma keys_filter_seen:
  "set (map fst (filter (\<lambda>(p, r). p \<in> A) db)) = set (map fst db) \<inter> A"
  by (induction db) auto

lemma distinct_filter_seen:
  "distinct (map fst db) \<Longrightarrow> distinct (map fst (filter (\<lambda>(p, r). p \<in> A) db))"
  by (rule distinct_map_filter)

lemma seen_walk_corpus:
  "seen_of (walk_corpus fnmatch (Some es) sk ex) =
     (\<lambda>e. path_str (parts e)) ` {e \<in> set es. eligible fnmatch (skip_of sk) (exts_of ex) e}"
  by (simp add: seen_of_def set_walk_corpus image_image file_path_make_meta)

lemma hash_fails_iff:
  assumes "wf_tree es" "e \<in> set es" "eligible fnmatch skip exts e"
  shows "isl (compute_file_hash sha256 (Some es) (absolute_path (make_meta e))) \<longleftrightarrow>
           content e = None"
  by (simp add: hash_of_meta[OF assms] split: option.splits)

lemma readable_walk_corpus:
  assumes "wf_tree es"
  shows "meta.file_path ` {m \<in> set (walk_corpus fnmatch (Some es) sk ex).
            \<not> isl (compute_file_hash sha256 (Some es) (absolute_path m))} =
         (\<lambda>e. path_str (parts e)) `
           {e \<in> set es. eligible fnmatch (skip_of sk) (exts_of ex) e \<and> content e \<noteq> None}"
proof -
  have "{m \<in> set (walk_corpus fnmatch (Some es) sk ex).
            \<not> isl (compute_file_hash sha256 (Some es) (absolute_path m))} =
        make_meta ` {e \<in> set es. eligible fnmatch (skip_of sk) (exts_of ex) e \<and> content e \<noteq> None}"
    (is "?L = make_meta ` ?R")
  proof (intro equalityI subsetI)
    fix m assume "m \<in> ?L"
    then obtain e where e: "e \<in> set es" "eligible fnmatch (skip_of sk) (exts_of ex) e"
      and m: "m = make_meta e"
      and ok: "\<not> isl (compute_file_hash sha256 (Some es) (absolute_path m))"
      by (auto simp: set_walk_corpus)
    have "content e \<noteq> None"
      using ok hash_fails_iff[OF assms e, of sha256] by (simp add: m)
    then show "m \<in> make_meta ` ?R" using e m by simp
  next
    fix m assume "m \<in> make_meta ` ?R"
    then obtain e where e: "e \<in> set es" "eligible fnmatch (skip_of sk) (exts_of ex) e"
      and m: "m = make_meta e" and c: "content e \<noteq> None"
      by auto
    have "\<not> isl (compute_file_hash sha256 (Some es) (absolute_path m))"
      using c hash_fails_iff[OF assms e, of sha256] by (simp add: m)
    then show "m \<in> ?L" using e m by (simp add: set_walk_corpus)
  qed
  then show ?thesis by (simp add: image_image file_path_make_meta)
qed

text \<open>
  Claim C1, as amended. After \<^verbatim>\<open>index_corpus\<close> over a well-formed tree, from a table with one
  row per path, the table has one row per path, and its paths are exactly the relative paths
  of the eligible files that could be hashed or that already had a row. An eligible file
  that cannot be hashed and had no row gets none.
\<close>

theorem index_corpus_catalog_paths:
  assumes "wf_tree es" and "distinct (map fst db)"
  shows "distinct (map fst (fst (index_corpus fnmatch sha256 now (Some es) db sk ex)))
    \<and> set (map fst (fst (index_corpus fnmatch sha256 now (Some es) db sk ex))) =
        (\<lambda>e. path_str (parts e)) `
          {e \<in> set es. eligible fnmatch (skip_of sk) (exts_of ex) e
             \<and> (content e \<noteq> None \<or> path_str (parts e) \<in> set (map fst db))}"
proof
  let ?ms = "walk_corpus fnmatch (Some es) sk ex"
  let ?s1 = "reindex_loop sha256 now (Some es) ?ms (db, initial_full, 0)"
  let ?P = "\<lambda>e. path_str (parts e)"
  let ?E = "{e \<in> set es. eligible fnmatch (skip_of sk) (exts_of ex) e}"
  have "distinct (map fst (fst ?s1))" using assms(2) by (intro rl_distinct) simp
  then show "distinct (map fst (fst (index_corpus fnmatch sha256 now (Some es) db sk ex)))"
    unfolding index_corpus_fst by (rule distinct_filter_seen)
  have keys: "set (map fst (fst ?s1)) = set (map fst db) \<union> ?P ` {e \<in> ?E. content e \<noteq> None}"
    using rl_keys[of sha256 now "Some es" ?ms "(db, initial_full, 0)"]
      readable_walk_corpus[OF assms(1), of fnmatch sk ex sha256]
    by simp
  have "(set (map fst db) \<union> ?P ` {e \<in> ?E. content e \<noteq> None}) \<inter> ?P ` ?E =
        ?P ` {e \<in> ?E. content e \<noteq> None \<or> ?P e \<in> set (map fst db)}"
    by blast
  then show "set (map fst (fst (index_corpus fnmatch sha256 now (Some es) db sk ex))) =
        ?P ` {e \<in> set es. eligible fnmatch (skip_of sk) (exts_of ex) e
             \<and> (content e \<noteq> None \<or> ?P e \<in> set (map fst db))}"
    unfolding index_corpus_fst keys_filter_seen keys seen_walk_corpus by simp
qed

theorem index_corpus_catalog_paths_witness:
  "wf_tree [file_b, dir_notes, file_a, file_locked]
   \<and> distinct (map fst [(''gone.md'', stale_row)])
   \<and> set (map fst (fst (index_corpus glob_match plain_hash tick
        (Some [file_b, dir_notes, file_a, file_locked]) [(''gone.md'', stale_row)] None None))) =
      {''a.md'', ''notes/b.txt''}"
proof -
  have h1: "wf_tree [file_b, dir_notes, file_a, file_locked]" by code_simp
  have h2: "distinct (map fst [(''gone.md'', stale_row)])" by simp
  have h3: "(\<lambda>e. path_str (parts e)) `
          {e \<in> set [file_b, dir_notes, file_a, file_locked].
             eligible glob_match (skip_of None) (exts_of None) e
             \<and> (content e \<noteq> None \<or> path_str (parts e) \<in> set (map fst [(''gone.md'', stale_row)]))} =
        {''a.md'', ''notes/b.txt''}"
    by code_simp
  show ?thesis
    using h1 h2 h3
      index_corpus_catalog_paths[OF h1 h2, of glob_match plain_hash tick None None]
    by simp
qed

text \<open>
  Claim C1 as stated fails: \<^verbatim>\<open>c.md\<close> passes every test of the walker, it cannot be read, and
  after a full run from the empty table it has no row.
\<close>

theorem unreadable_new_file_not_indexed:
  "eligible glob_match DEFAULT_SKIP_PATTERNS DEFAULT_SUPPORTED_EXTENSIONS file_locked
   \<and> wf_tree [file_locked]
   \<and> path_str (parts file_locked) = ''c.md''
   \<and> query_first (fst (index_corpus glob_match plain_hash tick (Some [file_locked]) [] None None))
        ''c.md'' = None"
  by code_simp

text \<open>
  Claim C2. In a run of \<^verbatim>\<open>index_corpus\<close>, when the hashing of a walked record raises, the row
  that the table had for its path is still there after the run and is the same row: the path
  was added to the seen paths before the hashing, so the deletion loop keeps it.
\<close>

theorem hash_failure_keeps_entry:
  assumes "wf_root root"
    and "m \<in> set (walk_corpus fnmatch root sk ex)"
    and "isl (compute_file_hash sha256 root (absolute_path m))"
    and "query_first db (meta.file_path m) = Some row"
  shows "query_first (fst (index_corpus fnmatch sha256 now root db sk ex)) (meta.file_path m)
           = Some row"
proof -
  let ?ms = "walk_corpus fnmatch root sk ex"
  have "classify sha256 root (fst (db, initial_full, 0::nat)) m = Failed"
    using assms(3) by (simp add: classify_Failed_iff)
  then have "map_of (fst (reindex_loop sha256 now root ?ms (db, initial_full, 0)))
        (meta.file_path m) = map_of (fst (db, initial_full, 0::nat)) (meta.file_path m)"
    using distinct_walk_root[OF assms(1)] assms(2) by (intro rl_same) simp_all
  moreover have "meta.file_path m \<in> seen_of ?ms" using assms(2) by (simp add: seen_of_def)
  ultimately show ?thesis
    using assms(4) by (simp add: query_first_def index_corpus_fst map_of_filter_key)
qed

theorem hash_failure_keeps_entry_witness:
  "wf_root (Some [file_b, dir_notes, file_a, file_locked])
   \<and> make_meta file_locked \<in> set (walk_corpus glob_match (Some [file_b, dir_notes, file_a, file_locked]) None None)
   \<and> isl (compute_file_hash plain_hash (Some [file_b, dir_notes, file_a, file_locked])
            (absolute_path (make_meta file_locked)))
   \<and> query_first [(''c.md'', stale_row)] (meta.file_path (make_meta file_locked)) = Some stale_row
   \<and> query_first (fst (index_corpus glob_match plain_hash tick
         (Some [file_b, dir_notes, file_a, file_locked]) [(''c.md'', stale_row)] None None))
        (meta.file_path (make_meta file_locked)) = Some stale_row"
proof -
  have h1: "wf_root (Some [file_b, dir_notes, file_a, file_locked])" by code_simp
  have h2: "make_meta file_locked \<in> set (walk_corpus glob_match (Some [file_b, dir_notes, file_a, file_locked]) None None)"
    by code_simp
  have h3: "isl (compute_file_hash plain_hash (Some [file_b, dir_notes, file_a, file_locked])
            (absolute_path (make_meta file_locked)))" by code_simp
  have h4: "query_first [(''c.md'', stale_row)] (meta.file_path (make_meta file_locked)) = Some stale_row"
    by code_simp
  show ?thesis
    using h1 h2 h3 h4 hash_failure_keeps_entry[OF h1 h2 h3 h4, of tick] by simp
qed

subsection \<open>Statistics of a run\<close>

lemma tally_zero:
  "\<forall>m \<in> set ms. classify sha256 fs db m \<noteq> out \<Longrightarrow> tally sha256 fs db ms out = 0"
  by (simp add: tally_def)

lemma tally_sum:
  "tally sha256 fs db ms Failed + tally sha256 fs db ms New + tally sha256 fs db ms Updated
     + tally sha256 fs db ms Unchanged = length ms"
proof (induction ms)
  case Nil
  then show ?case by (simp add: tally_def)
next
  case (Cons m ms)
  then show ?case by (cases "classify sha256 fs db m") (simp_all add: tally_def)
qed

lemma tally_Failed:
  "tally sha256 fs db ms Failed =
     length (filter (\<lambda>m. isl (compute_file_hash sha256 fs (absolute_path m))) ms)"
  by (simp add: tally_def classify_Failed_iff)

lemma initial_full_apply:
  "initial_full ''new'' = Some 0" "initial_full ''updated'' = Some 0"
  "initial_full ''unchanged'' = Some 0" "initial_full ''total'' = Some 0"
  "initial_full ''deleted'' = Some 0"
  by (simp_all add: initial_full_def)

lemma initial_incremental_apply:
  "initial_incremental ''new'' = Some 0" "initial_incremental ''updated'' = Some 0"
  "initial_incremental ''unchanged'' = Some 0" "initial_incremental ''total'' = Some 0"
  "initial_incremental ''deleted'' = None"
  by (simp_all add: initial_incremental_def)

lemma counted_apply:
  "counted sha256 fs db ms ''total'' = length ms"
  "counted sha256 fs db ms ''new'' = tally sha256 fs db ms New"
  "counted sha256 fs db ms ''updated'' = tally sha256 fs db ms Updated"
  "counted sha256 fs db ms ''unchanged'' = tally sha256 fs db ms Unchanged"
  by (simp_all add: counted_def)

lemma index_corpus_stats:
  assumes "wf_root root"
  shows "snd (index_corpus fnmatch sha256 now root db sk ex) ''total'' =
           Some (length (walk_corpus fnmatch root sk ex))"
    and "snd (index_corpus fnmatch sha256 now root db sk ex) ''new'' =
           Some (tally sha256 root db (walk_corpus fnmatch root sk ex) New)"
    and "snd (index_corpus fnmatch sha256 now root db sk ex) ''updated'' =
           Some (tally sha256 root db (walk_corpus fnmatch root sk ex) Updated)"
    and "snd (index_corpus fnmatch sha256 now root db sk ex) ''unchanged'' =
           Some (tally sha256 root db (walk_corpus fnmatch root sk ex) Unchanged)"
  using rl_stats[where ms = "walk_corpus fnmatch root sk ex" and s = "(db, initial_full, 0)"
      and fs = root and ?sha256.0 = sha256 and now = now]
    distinct_walk_root[OF assms, of fnmatch sk ex]
  by (simp_all add: index_corpus_snd initial_full_apply counted_apply)

lemma reindex_changed_stats:
  assumes "wf_root root"
  shows "snd (reindex_changed fnmatch sha256 now root db sk ex) ''total'' =
           Some (length (walk_corpus fnmatch root sk ex))"
    and "snd (reindex_changed fnmatch sha256 now root db sk ex) ''new'' =
           Some (tally sha256 root db (walk_corpus fnmatch root sk ex) New)"
    and "snd (reindex_changed fnmatch sha256 now root db sk ex) ''updated'' =
           Some (tally sha256 root db (walk_corpus fnmatch root sk ex) Updated)"
    and "snd (reindex_changed fnmatch sha256 now root db sk ex) ''unchanged'' =
           Some (tally sha256 root db (walk_corpus fnmatch root sk ex) Unchanged)"
  using rl_stats[where ms = "walk_corpus fnmatch root sk ex"
      and s = "(db, initial_incremental, 0)" and fs = root and ?sha256.0 = sha256 and now = now]
    distinct_walk_root[OF assms, of fnmatch sk ex]
  by (simp_all add: reindex_changed_snd initial_incremental_apply counted_apply)

text \<open>
  Claim C3, as amended. When the corpus root is not a directory, the walker yields nothing,
  and \<^verbatim>\<open>index_corpus\<close> inserts and updates no row: every row of the table after the run is a
  row of the starting table. The run does not fail: it returns an ordinary statistics
  dictionary, with 0 for new, updated, unchanged and total.
\<close>

theorem missing_root_run:
  "walk_corpus fnmatch None sk ex = []
   \<and> set (fst (index_corpus fnmatch sha256 now None db sk ex)) \<subseteq> set db
   \<and> snd (index_corpus fnmatch sha256 now None db sk ex) ''new'' = Some 0
   \<and> snd (index_corpus fnmatch sha256 now None db sk ex) ''updated'' = Some 0
   \<and> snd (index_corpus fnmatch sha256 now None db sk ex) ''unchanged'' = Some 0
   \<and> snd (index_corpus fnmatch sha256 now None db sk ex) ''total'' = Some 0"
proof (intro conjI)
  show "walk_corpus fnmatch None sk ex = []" by (rule walk_corpus_None)
  show "set (fst (index_corpus fnmatch sha256 now None db sk ex)) \<subseteq> set db"
    by (simp add: index_corpus_fst walk_corpus_None)
  show "snd (index_corpus fnmatch sha256 now None db sk ex) ''new'' = Some 0"
    by (simp add: index_corpus_snd walk_corpus_None initial_full_apply)
  show "snd (index_corpus fnmatch sha256 now None db sk ex) ''updated'' = Some 0"
    by (simp add: index_corpus_snd walk_corpus_None initial_full_apply)
  show "snd (index_corpus fnmatch sha256 now None db sk ex) ''unchanged'' = Some 0"
    by (simp add: index_corpus_snd walk_corpus_None initial_full_apply)
  show "snd (index_corpus fnmatch sha256 now None db sk ex) ''total'' = Some 0"
    by (simp add: index_corpus_snd walk_corpus_None initial_full_apply)
qed

text \<open>
  Claim C3 as stated fails: with a missing root and one row in the table, the full run
  returns statistics (total 0, deleted 1), not a failure, and the table is not left as it
  was.
\<close>

theorem missing_root_deletes_catalog:
  "fst (index_corpus glob_match plain_hash tick None [(''c.md'', stale_row)] None None) = []
   \<and> snd (index_corpus glob_match plain_hash tick None [(''c.md'', stale_row)] None None) ''deleted''
       = Some 1
   \<and> snd (index_corpus glob_match plain_hash tick None [(''c.md'', stale_row)] None None) ''total''
       = Some 0"
  by code_simp

text \<open>
  Claim C5. After \<^verbatim>\<open>index_corpus\<close> no path that the walk did not observe has a row, and the
  deleted statistic is the number of rows of the starting table whose path was not observed.
  After \<^verbatim>\<open>reindex_changed\<close> a path that the walk did not observe has the row it had, every
  path of the starting table is still in the table, and the statistics have no
  \<^verbatim>\<open>deleted\<close> key.
\<close>

theorem deletion_only_in_full_mode:
  "(\<forall>p. p \<notin> seen_of (walk_corpus fnmatch root sk ex) \<longrightarrow>
       query_first (fst (index_corpus fnmatch sha256 now root db sk ex)) p = None)
   \<and> snd (index_corpus fnmatch sha256 now root db sk ex) ''deleted'' =
       Some (length (filter (\<lambda>r. fst r \<notin> seen_of (walk_corpus fnmatch root sk ex)) db))
   \<and> (\<forall>p. p \<notin> seen_of (walk_corpus fnmatch root sk ex) \<longrightarrow>
         query_first (fst (reindex_changed fnmatch sha256 now root db sk ex)) p = query_first db p)
   \<and> set (map fst db) \<subseteq> set (map fst (fst (reindex_changed fnmatch sha256 now root db sk ex)))
   \<and> snd (reindex_changed fnmatch sha256 now root db sk ex) ''deleted'' = None"
proof (intro conjI allI impI)
  let ?ms = "walk_corpus fnmatch root sk ex"
  show "query_first (fst (index_corpus fnmatch sha256 now root db sk ex)) p = None"
    if "p \<notin> seen_of ?ms" for p
    using that by (simp add: query_first_def index_corpus_fst map_of_filter_key)
  show "snd (index_corpus fnmatch sha256 now root db sk ex) ''deleted'' =
       Some (length (filter (\<lambda>r. fst r \<notin> seen_of ?ms) db))"
    by (simp add: index_corpus_snd)
  show "query_first (fst (reindex_changed fnmatch sha256 now root db sk ex)) p = query_first db p"
    if "p \<notin> seen_of ?ms" for p
    using that rl_db_other[of p ?ms sha256 now root "(db, initial_incremental, 0)"]
    by (simp add: query_first_def reindex_changed_fst seen_of_def)
  show "set (map fst db) \<subseteq> set (map fst (fst (reindex_changed fnmatch sha256 now root db sk ex)))"
    using rl_keys[of sha256 now root ?ms "(db, initial_incremental, 0)"]
    by (simp add: reindex_changed_fst)
  show "snd (reindex_changed fnmatch sha256 now root db sk ex) ''deleted'' = None"
    using rl_stats_other[of "''deleted''" sha256 now root ?ms "(db, initial_incremental, 0)"]
    by (simp add: reindex_changed_snd initial_incremental_apply)
qed

theorem deletion_only_in_full_mode_witness:
  "''gone.md'' \<notin> seen_of (walk_corpus glob_match (Some [file_b, dir_notes, file_a]) None None)
   \<and> query_first (fst (index_corpus glob_match plain_hash tick (Some [file_b, dir_notes, file_a])
        [(''gone.md'', stale_row)] None None)) ''gone.md'' = None
   \<and> snd (index_corpus glob_match plain_hash tick (Some [file_b, dir_notes, file_a])
        [(''gone.md'', stale_row)] None None) ''deleted'' = Some 1
   \<and> query_first (fst (reindex_changed glob_match plain_hash tick (Some [file_b, dir_notes, file_a])
        [(''gone.md'', stale_row)] None None)) ''gone.md'' = Some stale_row
   \<and> snd (reindex_changed glob_match plain_hash tick (Some [file_b, dir_notes, file_a])
        [(''gone.md'', stale_row)] None None) ''deleted'' = None"
proof -
  have h1: "''gone.md'' \<notin> seen_of (walk_corpus glob_match (Some [file_b, dir_notes, file_a]) None None)"
    by code_simp
  have h2: "length (filter (\<lambda>r. fst r \<notin> seen_of (walk_corpus glob_match (Some [file_b, dir_notes, file_a]) None None))
        [(''gone.md'', stale_row)]) = 1"
    using h1 by simp
  have h3: "query_first [(''gone.md'', stale_row)] ''gone.md'' = Some stale_row"
    by (simp add: query_first_def)
  show ?thesis
    using h1 h2 h3
      deletion_only_in_full_mode[of glob_match "Some [file_b, dir_notes, file_a]" None None
        plain_hash tick "[(''gone.md'', stale_row)]"]
    by simp
qed

subsection \<open>Running twice\<close>

lemma filter_seen_idem:
  "filter (\<lambda>(p, r). p \<in> A) (filter (\<lambda>(p, r). p \<in> A) db) = filter (\<lambda>(p, r). p \<in> A) db"
  by (induction db) auto

lemma filter_unseen_empty:
  "filter (\<lambda>r. fst r \<notin> A) (filter (\<lambda>(p, r). p \<in> A) db) = []"
  by (induction db) auto

lemma index_corpus_lookup_seen:
  "p \<in> seen_of (walk_corpus fnmatch root sk ex) \<Longrightarrow>
   map_of (fst (index_corpus fnmatch sha256 now root db sk ex)) p =
   map_of (fst (reindex_loop sha256 now root (walk_corpus fnmatch root sk ex) (db, initial_full, 0))) p"
  by (simp add: index_corpus_fst map_of_filter_key)

lemma index_corpus_same:
  assumes "wf_root root" and "m \<in> set (walk_corpus fnmatch root sk ex)"
    and "classify sha256 root db m = Failed \<or> classify sha256 root db m = Unchanged"
  shows "map_of (fst (index_corpus fnmatch sha256 now root db sk ex)) (meta.file_path m) =
         map_of db (meta.file_path m)"
proof -
  let ?ms = "walk_corpus fnmatch root sk ex"
  have "map_of (fst (reindex_loop sha256 now root ?ms (db, initial_full, 0)))
        (meta.file_path m) = map_of (fst (db, initial_full, 0::nat)) (meta.file_path m)"
    using distinct_walk_root[OF assms(1)] assms(2,3) by (intro rl_same) simp_all
  moreover have "meta.file_path m \<in> seen_of ?ms" using assms(2) by (simp add: seen_of_def)
  ultimately show ?thesis by (simp add: index_corpus_lookup_seen)
qed

lemma reindex_changed_same:
  assumes "wf_root root" and "m \<in> set (walk_corpus fnmatch root sk ex)"
    and "classify sha256 root db m = Failed \<or> classify sha256 root db m = Unchanged"
  shows "map_of (fst (reindex_changed fnmatch sha256 now root db sk ex)) (meta.file_path m) =
         map_of db (meta.file_path m)"
proof -
  let ?ms = "walk_corpus fnmatch root sk ex"
  have "map_of (fst (reindex_loop sha256 now root ?ms (db, initial_incremental, 0)))
        (meta.file_path m) = map_of (fst (db, initial_incremental, 0::nat)) (meta.file_path m)"
    using distinct_walk_root[OF assms(1)] assms(2,3) by (intro rl_same) simp_all
  then show ?thesis by (simp add: reindex_changed_fst)
qed

lemma index_corpus_hash:
  assumes "wf_root root" and "m \<in> set (walk_corpus fnmatch root sk ex)"
    and "compute_file_hash sha256 root (absolute_path m) = Inr h"
  shows "\<exists>r. map_of (fst (index_corpus fnmatch sha256 now root db sk ex)) (meta.file_path m)
              = Some r \<and> File.file_hash r = Some h"
proof -
  let ?ms = "walk_corpus fnmatch root sk ex"
  have "meta.file_path m \<in> seen_of ?ms" using assms(2) by (simp add: seen_of_def)
  then show ?thesis
    using rl_hash[OF distinct_walk_root[OF assms(1)] assms(2,3), of now "(db, initial_full, 0)"]
    by (simp add: index_corpus_lookup_seen)
qed

text \<open>
  Claim C4, as amended. A second \<^verbatim>\<open>index_corpus\<close> over the same well-formed tree, from the
  table that the first one left, leaves that table as it is and counts new 0, updated 0 and
  deleted 0; total is the number of walked records, and unchanged is total minus the number
  of walked records whose hashing raises.
\<close>

theorem index_corpus_twice:
  fixes fnmatch sha256 now root db sk ex
    and db1 :: catalog and ms :: "meta list"
  defines "ms \<equiv> walk_corpus fnmatch root sk ex"
    and "db1 \<equiv> fst (index_corpus fnmatch sha256 now root db sk ex)"
  assumes "wf_root root"
  shows "fst (index_corpus fnmatch sha256 now' root db1 sk ex) = db1
    \<and> snd (index_corpus fnmatch sha256 now' root db1 sk ex) ''new'' = Some 0
    \<and> snd (index_corpus fnmatch sha256 now' root db1 sk ex) ''updated'' = Some 0
    \<and> snd (index_corpus fnmatch sha256 now' root db1 sk ex) ''deleted'' = Some 0
    \<and> snd (index_corpus fnmatch sha256 now' root db1 sk ex) ''total'' = Some (length ms)
    \<and> snd (index_corpus fnmatch sha256 now' root db1 sk ex) ''unchanged'' =
        Some (length ms
              - length (filter (\<lambda>m. isl (compute_file_hash sha256 root (absolute_path m))) ms))"
proof -
  have wf: "wf_root root" by fact
  have cls: "classify sha256 root db1 m = Failed \<or> classify sha256 root db1 m = Unchanged"
    if m: "m \<in> set ms" for m
  proof (cases "compute_file_hash sha256 root (absolute_path m)")
    case (Inl e)
    then show ?thesis by (simp add: classify_Failed_iff)
  next
    case (Inr h)
    obtain r where "map_of db1 (meta.file_path m) = Some r" "File.file_hash r = Some h"
      using index_corpus_hash[OF wf m[unfolded ms_def] Inr, of now db] by (auto simp: db1_def)
    then show ?thesis using Inr by (simp add: classify_Unchanged_iff)
  qed
  have keep: "fst (reindex_loop sha256 now' root ms (db1, initial_full, 0)) = db1"
    using rl_keep[of ms sha256 root "(db1, initial_full, 0)" now'] cls by simp
  have db1: "db1 = filter (\<lambda>(p, r). p \<in> seen_of ms)
                (fst (reindex_loop sha256 now root ms (db, initial_full, 0)))"
    by (simp add: db1_def ms_def index_corpus_fst)
  have same: "fst (index_corpus fnmatch sha256 now' root db1 sk ex) = db1"
    unfolding index_corpus_fst ms_def[symmetric] keep
    by (subst (1 2) db1) (rule filter_seen_idem)
  have "filter (\<lambda>r. fst r \<notin> seen_of ms) db1 = []"
    by (subst db1) (rule filter_unseen_empty)
  then have del: "snd (index_corpus fnmatch sha256 now' root db1 sk ex) ''deleted'' = Some 0"
    by (simp add: index_corpus_snd ms_def)
  have n: "tally sha256 root db1 ms New = 0"
  proof (rule tally_zero, rule ballI)
    fix m assume "m \<in> set ms"
    from cls[OF this] show "classify sha256 root db1 m \<noteq> New" by auto
  qed
  have u: "tally sha256 root db1 ms Updated = 0"
  proof (rule tally_zero, rule ballI)
    fix m assume "m \<in> set ms"
    from cls[OF this] show "classify sha256 root db1 m \<noteq> Updated" by auto
  qed
  have "tally sha256 root db1 ms Unchanged = length ms - tally sha256 root db1 ms Failed"
    using tally_sum[of sha256 root db1 ms] n u by simp
  then have c: "tally sha256 root db1 ms Unchanged =
      length ms - length (filter (\<lambda>m. isl (compute_file_hash sha256 root (absolute_path m))) ms)"
    by (simp add: tally_Failed)
  show ?thesis
    using same del n u c index_corpus_stats[OF wf, of fnmatch sha256 now' db1 sk ex]
    by (simp add: ms_def)
qed

theorem index_corpus_twice_witness:
  "wf_root (Some [file_b, dir_notes, file_a, file_locked])
   \<and> snd (index_corpus glob_match plain_hash tick (Some [file_b, dir_notes, file_a, file_locked])
        (fst (index_corpus glob_match plain_hash tick (Some [file_b, dir_notes, file_a, file_locked])
               [] None None)) None None) ''unchanged'' = Some 2
   \<and> snd (index_corpus glob_match plain_hash tick (Some [file_b, dir_notes, file_a, file_locked])
        (fst (index_corpus glob_match plain_hash tick (Some [file_b, dir_notes, file_a, file_locked])
               [] None None)) None None) ''total'' = Some 3"
proof -
  have h1: "wf_root (Some [file_b, dir_notes, file_a, file_locked])" by code_simp
  have h2: "length (walk_corpus glob_match (Some [file_b, dir_notes, file_a, file_locked]) None None) = 3"
    by code_simp
  have h3: "length (filter (\<lambda>m. isl (compute_file_hash plain_hash
        (Some [file_b, dir_notes, file_a, file_locked]) (absolute_path m)))
        (walk_corpus glob_match (Some [file_b, dir_notes, file_a, file_locked]) None None)) = 1"
    by code_simp
  show ?thesis
    using h1 h2 h3 index_corpus_twice[OF h1, where fnmatch = glob_match and ?sha256.0 = plain_hash
        and now = tick and now' = tick and db = "[]" and sk = None and ex = None]
    by simp
qed

text \<open>
  Claim C4 as stated fails: with \<^verbatim>\<open>a.md\<close> and the unreadable \<^verbatim>\<open>c.md\<close>, the second run counts
  unchanged 1 and total 2.
\<close>

theorem unchanged_differs_from_total:
  "snd (index_corpus glob_match plain_hash tick (Some [file_a, file_locked])
        (fst (index_corpus glob_match plain_hash tick (Some [file_a, file_locked]) [] None None))
        None None) ''unchanged'' = Some 1
   \<and> snd (index_corpus glob_match plain_hash tick (Some [file_a, file_locked])
        (fst (index_corpus glob_match plain_hash tick (Some [file_a, file_locked]) [] None None))
        None None) ''total'' = Some 2"
  by code_simp

subsection \<open>Classification by hash\<close>

lemma tally_pos:
  "m \<in> set ms \<Longrightarrow> classify sha256 fs db m = out \<Longrightarrow> 0 < tally sha256 fs db ms out"
  by (auto simp: tally_def filter_empty_conv)

text \<open>
  Claim C7. For a walked file whose hash equals the hash stored in its row, the loop body
  leaves the table and the clock as they are and adds one to total and to unchanged; after
  \<^verbatim>\<open>index_corpus\<close> and after \<^verbatim>\<open>reindex_changed\<close> the path has the very same row, every column
  included, and the unchanged statistic counts the records of this kind, this one among
  them.
\<close>

theorem unchanged_entry_untouched:
  assumes "wf_root root"
    and "m \<in> set (walk_corpus fnmatch root sk ex)"
    and "compute_file_hash sha256 root (absolute_path m) = Inr h"
    and "query_first db (meta.file_path m) = Some row"
    and "File.file_hash row = Some h"
  shows "process_record sha256 now root m (db, st, t) =
           (db, incr ''unchanged'' (incr ''total'' st), t)
    \<and> query_first (fst (index_corpus fnmatch sha256 now root db sk ex)) (meta.file_path m)
         = Some row
    \<and> query_first (fst (reindex_changed fnmatch sha256 now root db sk ex)) (meta.file_path m)
         = Some row
    \<and> classify sha256 root db m = Unchanged
    \<and> snd (index_corpus fnmatch sha256 now root db sk ex) ''unchanged'' =
         Some (tally sha256 root db (walk_corpus fnmatch root sk ex) Unchanged)
    \<and> snd (reindex_changed fnmatch sha256 now root db sk ex) ''unchanged'' =
         Some (tally sha256 root db (walk_corpus fnmatch root sk ex) Unchanged)
    \<and> 0 < tally sha256 root db (walk_corpus fnmatch root sk ex) Unchanged"
proof -
  have c: "classify sha256 root db m = Unchanged"
    using assms(3,4,5) by (simp add: classify_Unchanged_iff query_first_def)
  have "process_record sha256 now root m (db, st, t) =
           (db, incr ''unchanged'' (incr ''total'' st), t)"
    by (simp add: process_record_cases c)
  moreover have "query_first (fst (index_corpus fnmatch sha256 now root db sk ex))
      (meta.file_path m) = Some row"
    using index_corpus_same[OF assms(1,2), of sha256 db now] c assms(4)
    by (simp add: query_first_def)
  moreover have "query_first (fst (reindex_changed fnmatch sha256 now root db sk ex))
      (meta.file_path m) = Some row"
    using reindex_changed_same[OF assms(1,2), of sha256 db now] c assms(4)
    by (simp add: query_first_def)
  moreover have "0 < tally sha256 root db (walk_corpus fnmatch root sk ex) Unchanged"
    using assms(2) c by (rule tally_pos)
  ultimately show ?thesis
    using c index_corpus_stats(4)[OF assms(1)] reindex_changed_stats(4)[OF assms(1)] by simp
qed

theorem unchanged_entry_untouched_witness:
  "wf_root (Some [file_b, dir_notes, file_a, file_locked])
   \<and> make_meta file_a \<in> set (walk_corpus glob_match (Some [file_b, dir_notes, file_a, file_locked]) None None)
   \<and> compute_file_hash plain_hash (Some [file_b, dir_notes, file_a, file_locked])
        (absolute_path (make_meta file_a)) = Inr ''abc''
   \<and> query_first [(''a.md'', stale_row\<lparr>File.file_hash := Some ''abc''\<rparr>)]
        (meta.file_path (make_meta file_a)) = Some (stale_row\<lparr>File.file_hash := Some ''abc''\<rparr>)
   \<and> File.file_hash (stale_row\<lparr>File.file_hash := Some ''abc''\<rparr>) = Some ''abc''
   \<and> query_first (fst (index_corpus glob_match plain_hash tick
          (Some [file_b, dir_notes, file_a, file_locked])
          [(''a.md'', stale_row\<lparr>File.file_hash := Some ''abc''\<rparr>)] None None))
        (meta.file_path (make_meta file_a)) = Some (stale_row\<lparr>File.file_hash := Some ''abc''\<rparr>)
   \<and> query_first (fst (reindex_changed glob_match plain_hash tick
          (Some [file_b, dir_notes, file_a, file_locked])
          [(''a.md'', stale_row\<lparr>File.file_hash := Some ''abc''\<rparr>)] None None))
        (meta.file_path (make_meta file_a)) = Some (stale_row\<lparr>File.file_hash := Some ''abc''\<rparr>)"
proof -
  have h1: "wf_root (Some [file_b, dir_notes, file_a, file_locked])" by code_simp
  have h2: "make_meta file_a \<in> set (walk_corpus glob_match (Some [file_b, dir_notes, file_a, file_locked]) None None)"
    by code_simp
  have h3: "compute_file_hash plain_hash (Some [file_b, dir_notes, file_a, file_locked])
        (absolute_path (make_meta file_a)) = Inr ''abc''" by code_simp
  have h4: "query_first [(''a.md'', stale_row\<lparr>File.file_hash := Some ''abc''\<rparr>)]
        (meta.file_path (make_meta file_a)) = Some (stale_row\<lparr>File.file_hash := Some ''abc''\<rparr>)"
    by code_simp
  have h5: "File.file_hash (stale_row\<lparr>File.file_hash := Some ''abc''\<rparr>) = Some ''abc''" by simp
  show ?thesis
    using h1 h2 h3 h4 h5 unchanged_entry_untouched[OF h1 h2 h3 h4 h5, of tick Map.empty 0]
    by simp
qed



text \<open>
  Claim C10. In a run of \<^verbatim>\<open>index_corpus\<close> or \<^verbatim>\<open>reindex_changed\<close> over a well-formed tree,
  total is the number of walked records, and new, updated and unchanged add up to total
  minus the number of records whose hashing raises. A walked file whose hashing raises and
  that had no row has none after the run.
\<close>

theorem hash_failures_counted_in_total_only:
  assumes "wf_root root"
  shows
    "snd (index_corpus fnmatch sha256 now root db sk ex) ''total'' =
       Some (length (walk_corpus fnmatch root sk ex))
     \<and> snd (reindex_changed fnmatch sha256 now root db sk ex) ''total'' =
       Some (length (walk_corpus fnmatch root sk ex))
     \<and> (\<exists>n u c. snd (index_corpus fnmatch sha256 now root db sk ex) ''new'' = Some n
          \<and> snd (index_corpus fnmatch sha256 now root db sk ex) ''updated'' = Some u
          \<and> snd (index_corpus fnmatch sha256 now root db sk ex) ''unchanged'' = Some c
          \<and> n + u + c + length (filter (\<lambda>m. isl (compute_file_hash sha256 root (absolute_path m)))
                (walk_corpus fnmatch root sk ex)) =
              length (walk_corpus fnmatch root sk ex))
     \<and> (\<exists>n u c. snd (reindex_changed fnmatch sha256 now root db sk ex) ''new'' = Some n
          \<and> snd (reindex_changed fnmatch sha256 now root db sk ex) ''updated'' = Some u
          \<and> snd (reindex_changed fnmatch sha256 now root db sk ex) ''unchanged'' = Some c
          \<and> n + u + c + length (filter (\<lambda>m. isl (compute_file_hash sha256 root (absolute_path m)))
                (walk_corpus fnmatch root sk ex)) =
              length (walk_corpus fnmatch root sk ex))
     \<and> (\<forall>m \<in> set (walk_corpus fnmatch root sk ex).
          isl (compute_file_hash sha256 root (absolute_path m))
          \<and> query_first db (meta.file_path m) = None \<longrightarrow>
          query_first (fst (index_corpus fnmatch sha256 now root db sk ex)) (meta.file_path m) = None
          \<and> query_first (fst (reindex_changed fnmatch sha256 now root db sk ex)) (meta.file_path m) = None)"
proof -
  let ?ms = "walk_corpus fnmatch root sk ex"
  have sum: "tally sha256 root db ?ms New + tally sha256 root db ?ms Updated
      + tally sha256 root db ?ms Unchanged
      + length (filter (\<lambda>m. isl (compute_file_hash sha256 root (absolute_path m))) ?ms)
      = length ?ms"
    using tally_sum[of sha256 root db ?ms] by (simp add: tally_Failed)
  have gone: "query_first (fst (index_corpus fnmatch sha256 now root db sk ex)) (meta.file_path m) = None
          \<and> query_first (fst (reindex_changed fnmatch sha256 now root db sk ex)) (meta.file_path m) = None"
    if "m \<in> set ?ms" and "isl (compute_file_hash sha256 root (absolute_path m))
          \<and> query_first db (meta.file_path m) = None" for m
  proof -
    have c: "classify sha256 root db m = Failed \<or> classify sha256 root db m = Unchanged"
      using that(2) by (simp add: classify_Failed_iff)
    show ?thesis
      using index_corpus_same[OF assms that(1) c, of now] reindex_changed_same[OF assms that(1) c, of now]
        that(2)
      by (simp add: query_first_def)
  qed
  show ?thesis
    using sum gone
    by (simp add: index_corpus_stats[OF assms] reindex_changed_stats[OF assms])
qed

theorem hash_failures_counted_in_total_only_witness:
  "wf_root (Some [file_b, dir_notes, file_a, file_locked])
   \<and> snd (index_corpus glob_match plain_hash tick (Some [file_b, dir_notes, file_a, file_locked])
          [] None None) ''total'' = Some 3
   \<and> snd (index_corpus glob_match plain_hash tick (Some [file_b, dir_notes, file_a, file_locked])
          [] None None) ''new'' = Some 2
   \<and> make_meta file_locked \<in> set (walk_corpus glob_match (Some [file_b, dir_notes, file_a, file_locked]) None None)
   \<and> isl (compute_file_hash plain_hash (Some [file_b, dir_notes, file_a, file_locked])
          (absolute_path (make_meta file_locked)))
   \<and> query_first [] (meta.file_path (make_meta file_locked)) = None
   \<and> query_first (fst (index_corpus glob_match plain_hash tick
          (Some [file_b, dir_notes, file_a, file_locked]) [] None None))
        (meta.file_path (make_meta file_locked)) = None"
proof -
  let ?fs = "[file_b, dir_notes, file_a, file_locked]"
  have h1: "wf_root (Some ?fs)" by code_simp
  have h2: "length (walk_corpus glob_match (Some ?fs) None None) = 3" by code_simp
  have h3: "make_meta file_locked \<in> set (walk_corpus glob_match (Some ?fs) None None)" by code_simp
  have h4: "isl (compute_file_hash plain_hash (Some ?fs) (absolute_path (make_meta file_locked)))"
    by code_simp
  have h5: "query_first [] (meta.file_path (make_meta file_locked)) = None"
    by (simp add: query_first_def)
  have h6: "snd (index_corpus glob_match plain_hash tick (Some ?fs) [] None None) ''new'' = Some 2"
    by code_simp
  show ?thesis
    using h1 h2 h3 h4 h5 h6
      hash_failures_counted_in_total_only[OF h1, of glob_match plain_hash tick "[]" None None]
    by simp
qed

subsection \<open>The scenario of the specification\<close>

text \<open>
  The model on the scenario of section 8 of the specification: a first full run over
  \<^verbatim>\<open>a.md\<close> and \<^verbatim>\<open>notes/b.txt\<close> counts new 2 and total 2, and \<^verbatim>\<open>notes/b.txt\<close> gets the section
  \<^verbatim>\<open>notes\<close>, \<^verbatim>\<open>a.md\<close> none; a second run counts unchanged 2; after \<^verbatim>\<open>a.md\<close> is removed, a third
  run counts unchanged 1, deleted 1 and total 1 and keeps only \<^verbatim>\<open>notes/b.txt\<close>.
\<close>

lemma specification_scenario:
  "fst (index_corpus glob_match plain_hash tick (Some [file_b, dir_notes, file_a]) [] None None) =
     [(''a.md'', new_file (make_meta file_a) ''abc'' 100),
      (''notes/b.txt'', new_file (make_meta file_b) ''bb'' 101)]"
  "map (snd (index_corpus glob_match plain_hash tick (Some [file_b, dir_notes, file_a]) [] None None))
     [''new'', ''updated'', ''unchanged'', ''deleted'', ''total''] =
     [Some 2, Some 0, Some 0, Some 0, Some 2]"
  "File.corpus_section (new_file (make_meta file_b) ''bb'' 101) = Some ''notes''"
  "File.corpus_section (new_file (make_meta file_a) ''abc'' 100) = None"
  "map (snd (index_corpus glob_match plain_hash tick (Some [file_b, dir_notes, file_a])
     [(''a.md'', new_file (make_meta file_a) ''abc'' 100),
      (''notes/b.txt'', new_file (make_meta file_b) ''bb'' 101)] None None))
     [''new'', ''updated'', ''unchanged'', ''deleted'', ''total''] =
     [Some 0, Some 0, Some 2, Some 0, Some 2]"
  "fst (index_corpus glob_match plain_hash tick (Some [file_b, dir_notes])
     [(''a.md'', new_file (make_meta file_a) ''abc'' 100),
      (''notes/b.txt'', new_file (make_meta file_b) ''bb'' 101)] None None) =
     [(''notes/b.txt'', new_file (make_meta file_b) ''bb'' 101)]"
  "map (snd (index_corpus glob_match plain_hash tick (Some [file_b, dir_notes])
     [(''a.md'', new_file (make_meta file_a) ''abc'' 100),
      (''notes/b.txt'', new_file (make_meta file_b) ''bb'' 101)] None None))
     [''new'', ''updated'', ''unchanged'', ''deleted'', ''total''] =
     [Some 0, Some 0, Some 1, Some 1, Some 1]"
  by code_simp+

end
